theory Spec2Isabelle
  imports Main "HOL-Library.Word" "HOL-Library.Stream"
begin

unbundle bit_operations_syntax

section \<open>Data: bytes, buffers and JavaScript strings\<close>

text \<open>
  The core of the extension is \<^verbatim>\<open>src/utils/encryption.ts\<close>; \<^verbatim>\<open>src/api/snipit.ts\<close> calls it.
  A Node \<^verbatim>\<open>Buffer\<close> is a list of bytes. A JavaScript string is a sequence of UTF-16 code
  units, a list of 16-bit words: the plaintext, the password, and also the base64 text of
  an envelope, of a salt and of a key, which \<^verbatim>\<open>decrypt\<close> takes from its caller and which may
  hold any code unit. \<open>js\<close> reads a string of one-byte characters as a JavaScript string,
  and \<open>code_unit\<close> one character as a code unit.
\<close>

type_synonym byte = "8 word"
type_synonym buffer = "byte list"
type_synonym jsstring = "16 word list"

abbreviation code_unit :: "char \<Rightarrow> 16 word" where
  "code_unit c \<equiv> of_nat (of_char c)"

definition js :: "string \<Rightarrow> jsstring" where
  "js s = map (\<lambda>c. of_nat (of_char c)) s"

section \<open>Base64\<close>

text \<open>
  \<^verbatim>\<open>buffer.toString('base64')\<close> and \<^verbatim>\<open>Buffer.from(s, 'base64')\<close> of Node. The encoder writes
  the standard alphabet and pads with \<open>=\<close>. The decoder never fails. It reads a code unit
  through \<^verbatim>\<open>static_cast<uint8_t>\<close>, that is, it looks at the low byte of the unit only
  (\<open>low_byte\<close>): the unit 0141 is read as \<open>A\<close>. It reads the standard and the URL-safe
  alphabet alike (\<open>unbase64\<close> is its table), skips every other character, stops at the
  first \<open>=\<close>, and decodes a last group of two or three characters to one or two bytes.
\<close>

definition base64_char :: "nat \<Rightarrow> 16 word" where
  "base64_char n =
     (if n < 26 then of_nat (n + 65)
      else if n < 52 then of_nat (n + 71)
      else if n < 62 then of_nat (n - 4)
      else if n = 62 then code_unit CHR ''+'' else code_unit CHR ''/'')"

fun base64_encode :: "buffer \<Rightarrow> jsstring" where
  "base64_encode [] = []"
| "base64_encode [a] =
     [base64_char (unat a div 4), base64_char (unat a mod 4 * 16),
      code_unit CHR ''='', code_unit CHR ''='']"
| "base64_encode [a, b] =
     [base64_char (unat a div 4), base64_char (unat a mod 4 * 16 + unat b div 16),
      base64_char (unat b mod 16 * 4), code_unit CHR ''='']"
| "base64_encode (a # b # c # rest) =
     [base64_char (unat a div 4), base64_char (unat a mod 4 * 16 + unat b div 16),
      base64_char (unat b mod 16 * 4 + unat c div 64), base64_char (unat c mod 64)]
       @ base64_encode rest"

definition low_byte :: "16 word \<Rightarrow> nat" where
  "low_byte u = unat u mod 256"

definition unbase64 :: "16 word \<Rightarrow> nat option" where
  "unbase64 u =
     (let n = low_byte u in
      if 65 \<le> n \<and> n \<le> 90 then Some (n - 65)
      else if 97 \<le> n \<and> n \<le> 122 then Some (n - 71)
      else if 48 \<le> n \<and> n \<le> 57 then Some (n + 4)
      else if n = 43 \<or> n = 45 then Some 62
      else if n = 47 \<or> n = 95 then Some 63
      else None)"

fun decode_sextets :: "nat list \<Rightarrow> buffer" where
  "decode_sextets (s0 # s1 # s2 # s3 # rest) =
     [of_nat (s0 * 4 + s1 div 16), of_nat (s1 mod 16 * 16 + s2 div 4),
      of_nat (s2 mod 4 * 64 + s3)] @ decode_sextets rest"
| "decode_sextets [s0, s1, s2] =
     [of_nat (s0 * 4 + s1 div 16), of_nat (s1 mod 16 * 16 + s2 div 4)]"
| "decode_sextets [s0, s1] = [of_nat (s0 * 4 + s1 div 16)]"
| "decode_sextets _ = []"

definition base64_decode :: "jsstring \<Rightarrow> buffer" where
  "base64_decode s =
     decode_sextets (List.map_filter unbase64 (takeWhile (\<lambda>u. low_byte u \<noteq> 61) s))"

section \<open>encryption.ts: the URL-safe codec\<close>

text \<open>
  \<^verbatim>\<open>toBase64Url\<close> and \<^verbatim>\<open>fromBase64Url\<close>, step by step: \<open>replace_char\<close> is
  \<^verbatim>\<open>.replace(/x/g, 'y')\<close>, \<open>remove_char\<close> is \<^verbatim>\<open>.replace(/x/g, '')\<close>, both on whole code
  units, and \<open>pad4\<close> is the loop \<^verbatim>\<open>while (base64.length % 4) base64 += '='\<close>.
\<close>

definition replace_char :: "'a \<Rightarrow> 'a \<Rightarrow> 'a list \<Rightarrow> 'a list" where
  "replace_char x y s = map (\<lambda>c. if c = x then y else c) s"

definition remove_char :: "'a \<Rightarrow> 'a list \<Rightarrow> 'a list" where
  "remove_char x s = filter (\<lambda>c. c \<noteq> x) s"

definition toBase64Url :: "buffer \<Rightarrow> jsstring" where
  "toBase64Url buffer =
     remove_char (code_unit CHR ''='')
       (replace_char (code_unit CHR ''/'') (code_unit CHR ''_'')
         (replace_char (code_unit CHR ''+'') (code_unit CHR ''-'') (base64_encode buffer)))"

function pad4 :: "jsstring \<Rightarrow> jsstring" where
  "pad4 base64 =
     (if length base64 mod 4 \<noteq> 0 then pad4 (base64 @ [code_unit CHR ''='']) else base64)"
  by pat_completeness auto
termination
  by (relation "measure (\<lambda>s. 3 - (length s + 3) mod 4)") (auto, presburger)

declare pad4.simps [simp del]

definition fromBase64Url :: "jsstring \<Rightarrow> buffer" where
  "fromBase64Url str =
     base64_decode
       (pad4 (replace_char (code_unit CHR ''_'') (code_unit CHR ''/'')
                (replace_char (code_unit CHR ''-'') (code_unit CHR ''+'') str)))"

section \<open>UTF-8 and UTF-16\<close>

text \<open>
  The \<^verbatim>\<open>'utf8'\<close> encoding of Node. Writing a string, \<open>utf8_encode\<close> joins a surrogate pair
  to one code point of four bytes and writes every unpaired surrogate as U+FFFD. Reading
  bytes, the decoder is the state machine of the Encoding Standard: \<open>utf8_write\<close> is
  \<^verbatim>\<open>StringDecoder.write\<close>, which keeps an unfinished sequence for the next call, and
  \<open>utf8_end\<close> is \<^verbatim>\<open>StringDecoder.end\<close>; every ill-formed sequence becomes U+FFFD.
  \<open>toWellFormed\<close> and \<open>isWellFormed\<close> are the methods of \<^verbatim>\<open>String.prototype\<close>.
\<close>

definition is_high_surrogate :: "16 word \<Rightarrow> bool" where
  "is_high_surrogate u \<longleftrightarrow> 0xD800 \<le> unat u \<and> unat u \<le> 0xDBFF"

definition is_low_surrogate :: "16 word \<Rightarrow> bool" where
  "is_low_surrogate u \<longleftrightarrow> 0xDC00 \<le> unat u \<and> unat u \<le> 0xDFFF"

definition utf8_bytes :: "nat \<Rightarrow> buffer" where
  "utf8_bytes cp =
     (if cp < 0x80 then [of_nat cp]
      else if cp < 0x800 then [of_nat (0xC0 + cp div 64), of_nat (0x80 + cp mod 64)]
      else if cp < 0x10000 then
        [of_nat (0xE0 + cp div 4096), of_nat (0x80 + cp div 64 mod 64),
         of_nat (0x80 + cp mod 64)]
      else
        [of_nat (0xF0 + cp div 262144), of_nat (0x80 + cp div 4096 mod 64),
         of_nat (0x80 + cp div 64 mod 64), of_nat (0x80 + cp mod 64)])"

fun utf8_encode :: "jsstring \<Rightarrow> buffer" where
  "utf8_encode [] = []"
| "utf8_encode [u] =
     (if is_high_surrogate u \<or> is_low_surrogate u then utf8_bytes 0xFFFD
      else utf8_bytes (unat u))"
| "utf8_encode (u # v # rest) =
     (if is_high_surrogate u \<and> is_low_surrogate v then
        utf8_bytes (0x10000 + (unat u - 0xD800) * 1024 + (unat v - 0xDC00)) @ utf8_encode rest
      else if is_high_surrogate u \<or> is_low_surrogate u then
        utf8_bytes 0xFFFD @ utf8_encode (v # rest)
      else utf8_bytes (unat u) @ utf8_encode (v # rest))"

definition utf16_units :: "nat \<Rightarrow> jsstring" where
  "utf16_units cp =
     (if cp < 0x10000 then [of_nat cp]
      else [of_nat (0xD800 + (cp - 0x10000) div 1024),
            of_nat (0xDC00 + (cp - 0x10000) mod 1024)])"

record utf8_decoder =
  bytes_needed :: nat
  code_point :: nat
  lower_boundary :: nat
  upper_boundary :: nat

definition utf8_initial :: utf8_decoder where
  "utf8_initial =
     \<lparr>bytes_needed = 0, code_point = 0, lower_boundary = 0x80, upper_boundary = 0xBF\<rparr>"

definition utf8_start :: "byte \<Rightarrow> jsstring \<times> utf8_decoder" where
  "utf8_start b =
     (let n = unat b in
      if n \<le> 0x7F then ([of_nat n], utf8_initial)
      else if 0xC2 \<le> n \<and> n \<le> 0xDF then
        ([], \<lparr>bytes_needed = 1, code_point = n - 0xC0,
              lower_boundary = 0x80, upper_boundary = 0xBF\<rparr>)
      else if 0xE0 \<le> n \<and> n \<le> 0xEF then
        ([], \<lparr>bytes_needed = 2, code_point = n - 0xE0,
              lower_boundary = (if n = 0xE0 then 0xA0 else 0x80),
              upper_boundary = (if n = 0xED then 0x9F else 0xBF)\<rparr>)
      else if 0xF0 \<le> n \<and> n \<le> 0xF4 then
        ([], \<lparr>bytes_needed = 3, code_point = n - 0xF0,
              lower_boundary = (if n = 0xF0 then 0x90 else 0x80),
              upper_boundary = (if n = 0xF4 then 0x8F else 0xBF)\<rparr>)
      else ([0xFFFD], utf8_initial))"

definition utf8_step :: "utf8_decoder \<Rightarrow> byte \<Rightarrow> jsstring \<times> utf8_decoder" where
  "utf8_step st b =
     (let n = unat b in
      if bytes_needed st = 0 then utf8_start b
      else if n < lower_boundary st \<or> upper_boundary st < n then
        (0xFFFD # fst (utf8_start b), snd (utf8_start b))
      else if bytes_needed st = 1 then
        (utf16_units (code_point st * 64 + (n - 0x80)), utf8_initial)
      else
        ([], \<lparr>bytes_needed = bytes_needed st - 1,
              code_point = code_point st * 64 + (n - 0x80),
              lower_boundary = 0x80, upper_boundary = 0xBF\<rparr>))"

fun utf8_write :: "utf8_decoder \<Rightarrow> buffer \<Rightarrow> jsstring \<times> utf8_decoder" where
  "utf8_write st [] = ([], st)"
| "utf8_write st (b # bs) =
     (fst (utf8_step st b) @ fst (utf8_write (snd (utf8_step st b)) bs),
      snd (utf8_write (snd (utf8_step st b)) bs))"

definition utf8_end :: "utf8_decoder \<Rightarrow> jsstring" where
  "utf8_end st = (if bytes_needed st \<noteq> 0 then [0xFFFD] else [])"

definition utf8_decode :: "buffer \<Rightarrow> jsstring" where
  "utf8_decode bs = fst (utf8_write utf8_initial bs) @ utf8_end (snd (utf8_write utf8_initial bs))"

fun toWellFormed :: "jsstring \<Rightarrow> jsstring" where
  "toWellFormed [] = []"
| "toWellFormed [u] = (if is_high_surrogate u \<or> is_low_surrogate u then [0xFFFD] else [u])"
| "toWellFormed (u # v # rest) =
     (if is_high_surrogate u \<and> is_low_surrogate v then u # v # toWellFormed rest
      else if is_high_surrogate u \<or> is_low_surrogate u then 0xFFFD # toWellFormed (v # rest)
      else u # toWellFormed (v # rest))"

fun isWellFormed :: "jsstring \<Rightarrow> bool" where
  "isWellFormed [] = True"
| "isWellFormed [u] = (\<not> is_high_surrogate u \<and> \<not> is_low_surrogate u)"
| "isWellFormed (u # v # rest) =
     (if is_high_surrogate u \<and> is_low_surrogate v then isWellFormed rest
      else \<not> is_high_surrogate u \<and> \<not> is_low_surrogate u \<and> isWellFormed (v # rest))"

section \<open>Node's crypto module\<close>

text \<open>
  The cipher is not code of the extension: \<^verbatim>\<open>crypto\<close> is Node's binding to the TLS library.
  The record \<open>crypto\<close> holds what the model leaves open about it. AES-256 in GCM mode is
  counter mode with a tag: \<open>gcm_keystream key iv i\<close> is the byte the \<open>i\<close>-th plaintext byte
  is XORed with, and \<open>gcm_tag key iv ciphertext\<close> is the 128-bit tag (no additional
  authenticated data is used). \<open>hmac_sha256 key message\<close> is the MAC under PBKDF2. Every
  theorem holds for all three functions, that is for every cipher of this shape.

  \<open>error\<close> lists what the calls throw: the error codes of Node, and the plain error of
  \<^verbatim>\<open>decipher.final\<close>, "Unsupported state or unable to authenticate data". The random
  source is a stream of bytes; \<open>randomBytes n\<close> takes the next \<open>n\<close>.
\<close>

datatype error =
    ERR_CRYPTO_INVALID_IV
  | ERR_CRYPTO_INVALID_KEYLEN
  | ERR_CRYPTO_INVALID_AUTH_TAG
  | ERR_CRYPTO_INVALID_STATE
  | ERR_OUT_OF_RANGE
  | Unable_to_authenticate_data

record crypto =
  gcm_keystream :: "buffer \<Rightarrow> buffer \<Rightarrow> nat \<Rightarrow> byte"
  gcm_tag :: "buffer \<Rightarrow> buffer \<Rightarrow> buffer \<Rightarrow> 128 word"
  hmac_sha256 :: "buffer \<Rightarrow> buffer \<Rightarrow> 256 word"

definition be_bytes :: "nat \<Rightarrow> 'a::len word \<Rightarrow> buffer" where
  "be_bytes n w = map (\<lambda>i. ucast (drop_bit (8 * (n - Suc i)) w)) [0..<n]"

definition randomBytes :: "nat \<Rightarrow> byte stream \<Rightarrow> buffer \<times> byte stream" where
  "randomBytes n rng = (stake n rng, sdrop n rng)"

fun xor_stream :: "(nat \<Rightarrow> byte) \<Rightarrow> nat \<Rightarrow> buffer \<Rightarrow> buffer" where
  "xor_stream ks pos [] = []"
| "xor_stream ks pos (b # bs) = (b XOR ks pos) # xor_stream ks (Suc pos) bs"

definition GCM_IV_MAX_SIZE :: nat where "GCM_IV_MAX_SIZE = 128"

definition IsValidGCMTagLength :: "nat \<Rightarrow> bool" where
  "IsValidGCMTagLength n \<longleftrightarrow> n = 4 \<or> n = 8 \<or> (12 \<le> n \<and> n \<le> 16)"

text \<open>
  \<open>createCipheriv\<close> and \<open>createDecipheriv\<close> stand for the calls with the algorithm
  \<^verbatim>\<open>'aes-256-gcm'\<close> and the option \<^verbatim>\<open>authTagLength\<close>. Node refuses an empty IV; then it
  sets the IV length, which the TLS library (OpenSSL 3) refuses for GCM beyond
  \<open>GCM_IV_MAX_SIZE\<close>, 128 bytes, and Node reports that as an invalid IV too; then it
  refuses an invalid tag length, and last a key that is not 32 bytes long. So for GCM an
  IV of 1 to 128 bytes is accepted, whatever its length. \<open>cipher_update\<close> is
  \<^verbatim>\<open>cipher.update(content, 'utf8', 'base64')\<close> and \<open>cipher_final\<close> is
  \<^verbatim>\<open>cipher.final('base64')\<close>: the base64 output goes through a \<^verbatim>\<open>StringDecoder\<close>, which
  holds back the bytes beyond a multiple of three (\<open>base64_write\<close>) until the end
  (\<open>base64_end\<close>). \<open>decipher_update\<close> is \<^verbatim>\<open>decipher.update(data, 'base64', 'utf8')\<close> and
  \<open>decipher_final\<close> is \<^verbatim>\<open>decipher.final('utf8')\<close>, which compares the tag and throws when
  it differs. The source calls each of them once and in this order.
\<close>

record cipheriv =
  c_key :: buffer
  c_iv :: buffer
  c_auth_tag_len :: nat
  c_data :: buffer
  c_pending :: buffer
  c_auth_tag :: "buffer option"

definition createCipheriv :: "buffer \<Rightarrow> buffer \<Rightarrow> nat \<Rightarrow> error + cipheriv" where
  "createCipheriv k nonce authTagLength =
     (if nonce = [] \<or> GCM_IV_MAX_SIZE < length nonce then Inl ERR_CRYPTO_INVALID_IV
      else if \<not> IsValidGCMTagLength authTagLength then Inl ERR_CRYPTO_INVALID_AUTH_TAG
      else if length k \<noteq> 32 then Inl ERR_CRYPTO_INVALID_KEYLEN
      else Inr \<lparr>c_key = k, c_iv = nonce, c_auth_tag_len = authTagLength,
                c_data = [], c_pending = [], c_auth_tag = None\<rparr>)"

definition base64_write :: "buffer \<Rightarrow> buffer \<Rightarrow> jsstring \<times> buffer" where
  "base64_write pending buf =
     (let all = pending @ buf; n = length all mod 3 in
      (base64_encode (take (length all - n) all), drop (length all - n) all))"

definition base64_end :: "buffer \<Rightarrow> buffer \<Rightarrow> jsstring" where
  "base64_end pending buf =
     (let (s, rest) = base64_write pending buf in s @ base64_encode rest)"

definition cipher_update :: "crypto \<Rightarrow> cipheriv \<Rightarrow> jsstring \<Rightarrow> jsstring \<times> cipheriv" where
  "cipher_update lib c content =
     (let out = xor_stream (gcm_keystream lib (c_key c) (c_iv c)) (length (c_data c))
                  (utf8_encode content);
          (s, rest) = base64_write (c_pending c) out in
      (s, c\<lparr>c_data := c_data c @ out, c_pending := rest\<rparr>))"

definition cipher_final :: "crypto \<Rightarrow> cipheriv \<Rightarrow> jsstring \<times> cipheriv" where
  "cipher_final lib c =
     (base64_end (c_pending c) [],
      c\<lparr>c_pending := [],
        c_auth_tag :=
          Some (take (c_auth_tag_len c)
                  (be_bytes 16 (gcm_tag lib (c_key c) (c_iv c) (c_data c))))\<rparr>)"

definition getAuthTag :: "cipheriv \<Rightarrow> error + buffer" where
  "getAuthTag c = (case c_auth_tag c of None \<Rightarrow> Inl ERR_CRYPTO_INVALID_STATE | Some t \<Rightarrow> Inr t)"

record decipheriv =
  d_key :: buffer
  d_iv :: buffer
  d_auth_tag_len :: nat
  d_data :: buffer
  d_decoder :: utf8_decoder
  d_auth_tag :: "buffer option"

definition createDecipheriv :: "buffer \<Rightarrow> buffer \<Rightarrow> nat \<Rightarrow> error + decipheriv" where
  "createDecipheriv k nonce authTagLength =
     (if nonce = [] \<or> GCM_IV_MAX_SIZE < length nonce then Inl ERR_CRYPTO_INVALID_IV
      else if \<not> IsValidGCMTagLength authTagLength then Inl ERR_CRYPTO_INVALID_AUTH_TAG
      else if length k \<noteq> 32 then Inl ERR_CRYPTO_INVALID_KEYLEN
      else Inr \<lparr>d_key = k, d_iv = nonce, d_auth_tag_len = authTagLength,
                d_data = [], d_decoder = utf8_initial, d_auth_tag = None\<rparr>)"

definition setAuthTag :: "decipheriv \<Rightarrow> buffer \<Rightarrow> error + decipheriv" where
  "setAuthTag d t =
     (if length t \<noteq> d_auth_tag_len d \<or> \<not> IsValidGCMTagLength (length t)
      then Inl ERR_CRYPTO_INVALID_AUTH_TAG
      else Inr (d\<lparr>d_auth_tag := Some t\<rparr>))"

definition decipher_update ::
  "crypto \<Rightarrow> decipheriv \<Rightarrow> jsstring \<Rightarrow> jsstring \<times> decipheriv" where
  "decipher_update lib d data =
     (let inp = base64_decode data;
          out = xor_stream (gcm_keystream lib (d_key d) (d_iv d)) (length (d_data d)) inp;
          (s, dec) = utf8_write (d_decoder d) out in
      (s, d\<lparr>d_data := d_data d @ inp, d_decoder := dec\<rparr>))"

definition decipher_final :: "crypto \<Rightarrow> decipheriv \<Rightarrow> error + jsstring" where
  "decipher_final lib d =
     (case d_auth_tag d of
        None \<Rightarrow> Inl Unable_to_authenticate_data
      | Some t \<Rightarrow>
          if t = take (length t) (be_bytes 16 (gcm_tag lib (d_key d) (d_iv d) (d_data d)))
          then Inr (utf8_end (d_decoder d))
          else Inl Unable_to_authenticate_data)"


text \<open>
  \<^verbatim>\<open>crypto.pbkdf2Sync(password, salt, iterations, keylen, 'sha256')\<close>: PBKDF2 of RFC 8018
  over the MAC given as \<open>prf\<close>, which the digest name selects. A block is the XOR of
  \<open>iterations\<close> chained MACs, the first one over the salt and the block index.
\<close>

fun pbkdf2_rounds ::
  "(buffer \<Rightarrow> buffer \<Rightarrow> 256 word) \<Rightarrow> buffer \<Rightarrow> nat \<Rightarrow> 256 word \<Rightarrow> 256 word \<Rightarrow> 256 word" where
  "pbkdf2_rounds prf p 0 u acc = acc"
| "pbkdf2_rounds prf p (Suc n) u acc =
     (let u' = prf p (be_bytes 32 u) in pbkdf2_rounds prf p n u' (acc XOR u'))"

definition pbkdf2_block ::
  "(buffer \<Rightarrow> buffer \<Rightarrow> 256 word) \<Rightarrow> buffer \<Rightarrow> buffer \<Rightarrow> nat \<Rightarrow> nat \<Rightarrow> buffer" where
  "pbkdf2_block prf p s c i =
     (let u1 = prf p (s @ be_bytes 4 (of_nat i :: 32 word)) in
      be_bytes 32 (pbkdf2_rounds prf p (c - 1) u1 u1))"

definition pbkdf2 ::
  "(buffer \<Rightarrow> buffer \<Rightarrow> 256 word) \<Rightarrow> buffer \<Rightarrow> buffer \<Rightarrow> nat \<Rightarrow> nat \<Rightarrow> buffer" where
  "pbkdf2 prf p s c dkLen =
     take dkLen (concat (map (pbkdf2_block prf p s c) [1..<Suc ((dkLen + 31) div 32)]))"

definition pbkdf2Sync ::
  "(buffer \<Rightarrow> buffer \<Rightarrow> 256 word) \<Rightarrow> jsstring \<Rightarrow> buffer \<Rightarrow> nat \<Rightarrow> nat \<Rightarrow> error + buffer" where
  "pbkdf2Sync prf password salt iterations keylen =
     (if iterations < 1 \<or> 2147483647 < iterations \<or> 2147483647 < keylen
      then Inl ERR_OUT_OF_RANGE
      else Inr (pbkdf2 prf (utf8_encode password) salt iterations keylen))"

section \<open>encryption.ts\<close>

text \<open>
  The functions of \<^verbatim>\<open>src/utils/encryption.ts\<close>, statement by statement. Each takes the
  cipher library, and the ones that draw random bytes take the random source and return
  what is left of it. A thrown error is \<open>Inl\<close>. The result of \<^verbatim>\<open>encryptWithPassword\<close> has
  the fields \<^verbatim>\<open>encrypted\<close> and \<^verbatim>\<open>salt\<close>; the first is \<open>pw_encrypted\<close> here.
\<close>

definition KEY_LENGTH :: nat where "KEY_LENGTH = 32"
definition IV_LENGTH :: nat where "IV_LENGTH = 12"
definition TAG_LENGTH :: nat where "TAG_LENGTH = 16"

record EncryptedData =
  ciphertext :: jsstring
  iv :: jsstring
  tag :: jsstring

record EncryptionResult =
  encrypted :: EncryptedData
  key :: jsstring

record PasswordEncryptionResult =
  pw_encrypted :: EncryptedData
  salt :: jsstring

definition generateKey :: "byte stream \<Rightarrow> buffer \<times> byte stream" where
  "generateKey rng = randomBytes KEY_LENGTH rng"

definition encrypt ::
  "crypto \<Rightarrow> jsstring \<Rightarrow> byte stream \<Rightarrow> (error + EncryptionResult) \<times> byte stream" where
  "encrypt lib content rng =
     (let (key_buf, rng1) = generateKey rng;
          (iv_buf, rng2) = randomBytes IV_LENGTH rng1 in
      (case createCipheriv key_buf iv_buf TAG_LENGTH of
         Inl e \<Rightarrow> Inl e
       | Inr cipher \<Rightarrow>
           (let (ct1, cipher1) = cipher_update lib cipher content;
                (ct2, cipher2) = cipher_final lib cipher1 in
            case getAuthTag cipher2 of
              Inl e \<Rightarrow> Inl e
            | Inr tag_buf \<Rightarrow>
                Inr \<lparr>encrypted =
                       \<lparr>ciphertext = ct1 @ ct2,
                        iv = base64_encode iv_buf,
                        tag = base64_encode tag_buf\<rparr>,
                     key = toBase64Url key_buf\<rparr>),
       rng2))"

definition decrypt :: "crypto \<Rightarrow> EncryptedData \<Rightarrow> jsstring \<Rightarrow> error + jsstring" where
  "decrypt lib enc keyBase64Url =
     (let key_buf = fromBase64Url keyBase64Url;
          iv_buf = base64_decode (iv enc);
          tag_buf = base64_decode (tag enc) in
      case createDecipheriv key_buf iv_buf TAG_LENGTH of
        Inl e \<Rightarrow> Inl e
      | Inr decipher \<Rightarrow>
          (case setAuthTag decipher tag_buf of
             Inl e \<Rightarrow> Inl e
           | Inr decipher1 \<Rightarrow>
               (let (plaintext, decipher2) = decipher_update lib decipher1 (ciphertext enc) in
                case decipher_final lib decipher2 of
                  Inl e \<Rightarrow> Inl e
                | Inr fin \<Rightarrow> Inr (plaintext @ fin))))"

definition deriveKeyFromPassword :: "crypto \<Rightarrow> jsstring \<Rightarrow> buffer \<Rightarrow> error + buffer" where
  "deriveKeyFromPassword lib password salt_buf =
     pbkdf2Sync (hmac_sha256 lib) password salt_buf 100000 KEY_LENGTH"

definition encryptWithPassword ::
  "crypto \<Rightarrow> jsstring \<Rightarrow> jsstring \<Rightarrow> byte stream
     \<Rightarrow> (error + PasswordEncryptionResult) \<times> byte stream" where
  "encryptWithPassword lib content password rng =
     (let (salt_buf, rng1) = randomBytes 16 rng in
      case deriveKeyFromPassword lib password salt_buf of
        Inl e \<Rightarrow> (Inl e, rng1)
      | Inr key_buf \<Rightarrow>
          (let (iv_buf, rng2) = randomBytes IV_LENGTH rng1 in
           (case createCipheriv key_buf iv_buf TAG_LENGTH of
              Inl e \<Rightarrow> Inl e
            | Inr cipher \<Rightarrow>
                (let (ct1, cipher1) = cipher_update lib cipher content;
                     (ct2, cipher2) = cipher_final lib cipher1 in
                 case getAuthTag cipher2 of
                   Inl e \<Rightarrow> Inl e
                 | Inr tag_buf \<Rightarrow>
                     Inr \<lparr>pw_encrypted =
                            \<lparr>ciphertext = ct1 @ ct2,
                             iv = base64_encode iv_buf,
                             tag = base64_encode tag_buf\<rparr>,
                          salt = base64_encode salt_buf\<rparr>),
            rng2)))"

definition decryptWithPassword ::
  "crypto \<Rightarrow> EncryptedData \<Rightarrow> jsstring \<Rightarrow> jsstring \<Rightarrow> error + jsstring" where
  "decryptWithPassword lib enc password saltBase64 =
     (let salt_buf = base64_decode saltBase64;
          iv_buf = base64_decode (iv enc);
          tag_buf = base64_decode (tag enc) in
      case deriveKeyFromPassword lib password salt_buf of
        Inl e \<Rightarrow> Inl e
      | Inr key_buf \<Rightarrow>
          (case createDecipheriv key_buf iv_buf TAG_LENGTH of
             Inl e \<Rightarrow> Inl e
           | Inr decipher \<Rightarrow>
               (case setAuthTag decipher tag_buf of
                  Inl e \<Rightarrow> Inl e
                | Inr decipher1 \<Rightarrow>
                    (let (plaintext, decipher2) =
                           decipher_update lib decipher1 (ciphertext enc) in
                     case decipher_final lib decipher2 of
                       Inl e \<Rightarrow> Inl e
                     | Inr fin \<Rightarrow> Inr (plaintext @ fin)))))"

section \<open>The error kinds of the specification\<close>

text \<open>
  The specification names three kinds of error. \<open>kind_of\<close> sorts the errors of Node into
  them: the three length errors are \<open>MalformedInput\<close>, the error of \<^verbatim>\<open>decipher.final\<close> is
  \<open>AuthenticationFailure\<close>; no call of the code raises \<open>InvalidEncoding\<close>.
  \<open>url_safe_alphabet\<close> is the alphabet the specification gives for the codec, and
  \<open>gcm_seal\<close> and \<open>gcm_open\<close> are its \<^verbatim>\<open>seal\<close> and \<^verbatim>\<open>open\<close> for a given nonce.
\<close>

datatype error_kind = InvalidEncoding | MalformedInput | AuthenticationFailure | OtherError

fun kind_of :: "error \<Rightarrow> error_kind" where
  "kind_of ERR_CRYPTO_INVALID_IV = MalformedInput"
| "kind_of ERR_CRYPTO_INVALID_KEYLEN = MalformedInput"
| "kind_of ERR_CRYPTO_INVALID_AUTH_TAG = MalformedInput"
| "kind_of Unable_to_authenticate_data = AuthenticationFailure"
| "kind_of ERR_CRYPTO_INVALID_STATE = OtherError"
| "kind_of ERR_OUT_OF_RANGE = OtherError"

definition url_safe_alphabet :: "char set" where
  "url_safe_alphabet =
     set ''ABCDEFGHIJKLMNOPQRSTUVWXYZabcdefghijklmnopqrstuvwxyz0123456789-_''"

definition gcm_seal :: "crypto \<Rightarrow> buffer \<Rightarrow> buffer \<Rightarrow> buffer \<Rightarrow> buffer \<times> buffer" where
  "gcm_seal lib k nonce pt =
     (let ct = xor_stream (gcm_keystream lib k nonce) 0 pt in
      (ct, be_bytes 16 (gcm_tag lib k nonce ct)))"

definition gcm_open :: "crypto \<Rightarrow> buffer \<Rightarrow> buffer \<Rightarrow> buffer \<Rightarrow> buffer \<Rightarrow> buffer option" where
  "gcm_open lib k nonce ct t =
     (if t = be_bytes 16 (gcm_tag lib k nonce ct)
      then Some (xor_stream (gcm_keystream lib k nonce) 0 ct) else None)"

section \<open>api/snipit.ts\<close>

text \<open>
  \<open>createSnippet_sends\<close> is the request that \<^verbatim>\<open>createSnippet\<close> hands to \<^verbatim>\<open>makeRequest\<close>:
  the method, the URL and the body, \<^verbatim>\<open>JSON.stringify(requestBody)\<close>, which leaves out the
  fields that are undefined. \<open>now\<close> is \<^verbatim>\<open>Date.now()\<close>; a date is kept as its milliseconds.
  The answer of the server and the URL built from it are not modelled.

  \<open>parseSnipitUrl\<close> takes the URL parser of the platform, \<^verbatim>\<open>new URL(url)\<close>, as a function
  that returns the parsed URL or nothing when it throws. \<open>replace_leading c\<close> is
  \<^verbatim>\<open>.replace(/^c/, '')\<close>, \<open>js_split\<close> is \<^verbatim>\<open>.split('/')\<close>, \<open>index0\<close> is \<^verbatim>\<open>[0]\<close>,
  \<open>js_includes\<close> is \<^verbatim>\<open>.includes\<close> and \<open>or_undefined\<close> is \<^verbatim>\<open>|| undefined\<close>.
  \<open>first_path_segment\<close> and \<open>fragment_key\<close> say in the words of the claim what the
  result holds.
\<close>

datatype visibility = Public | Password | Burn

datatype expiry = Expiry_1h | Expiry_24h | Expiry_7d | Expiry_30d | Expiry_never

record SnippetOptions =
  content :: jsstring
  language :: "jsstring option"
  fileName :: "jsstring option"
  visibility :: visibility
  expiry :: expiry
  password :: "jsstring option"

record RequestBody =
  body_content :: jsstring
  body_language :: "jsstring option"
  body_fileName :: "jsstring option"
  body_visibility :: visibility
  body_expiresAt :: "int option"
  body_password :: "jsstring option"

datatype json = JString jsstring | JDate int

record http_request =
  req_method :: string
  req_url :: string
  req_body :: "(string \<times> json) list option"

fun expiryMap :: "expiry \<Rightarrow> int option" where
  "expiryMap Expiry_1h = Some (60 * 60)"
| "expiryMap Expiry_24h = Some (24 * 60 * 60)"
| "expiryMap Expiry_7d = Some (7 * 24 * 60 * 60)"
| "expiryMap Expiry_30d = Some (30 * 24 * 60 * 60)"
| "expiryMap Expiry_never = None"

fun visibility_string :: "visibility \<Rightarrow> jsstring" where
  "visibility_string Public = js ''public''"
| "visibility_string Password = js ''password''"
| "visibility_string Burn = js ''burn''"

definition json_field :: "string \<Rightarrow> json option \<Rightarrow> (string \<times> json) list" where
  "json_field name v = (case v of None \<Rightarrow> [] | Some x \<Rightarrow> [(name, x)])"

definition JSON_stringify :: "RequestBody \<Rightarrow> (string \<times> json) list" where
  "JSON_stringify b =
     json_field ''content'' (Some (JString (body_content b)))
     @ json_field ''language'' (map_option JString (body_language b))
     @ json_field ''fileName'' (map_option JString (body_fileName b))
     @ json_field ''visibility'' (Some (JString (visibility_string (body_visibility b))))
     @ json_field ''expiresAt'' (map_option JDate (body_expiresAt b))
     @ json_field ''password'' (map_option JString (body_password b))"

definition makeRequest_sends :: "string \<Rightarrow> string \<Rightarrow> RequestBody option \<Rightarrow> http_request" where
  "makeRequest_sends method url data =
     \<lparr>req_method = method, req_url = url, req_body = map_option JSON_stringify data\<rparr>"

definition createSnippet_sends :: "string \<Rightarrow> int \<Rightarrow> SnippetOptions \<Rightarrow> http_request" where
  "createSnippet_sends apiUrl now options =
     (let expirySeconds = expiryMap (expiry options);
          expiresAt = (case expirySeconds of
                         None \<Rightarrow> None
                       | Some s \<Rightarrow> if s = 0 then None else Some (now + s * 1000));
          requestBody =
            \<lparr>body_content = content options,
             body_language = language options,
             body_fileName = fileName options,
             body_visibility = visibility options,
             body_expiresAt = expiresAt,
             body_password = password options\<rparr>
      in makeRequest_sends ''POST'' (apiUrl @ ''/api/snippets'') (Some requestBody))"

record URL =
  hostname :: string
  pathname :: string
  hash :: string

record SnipitUrl =
  id' :: "string option"
  key' :: "string option"

fun starts_with :: "string \<Rightarrow> string \<Rightarrow> bool" where
  "starts_with s [] = True"
| "starts_with [] (p # ps) = False"
| "starts_with (c # cs) (p # ps) = (c = p \<and> starts_with cs ps)"

fun js_includes :: "string \<Rightarrow> string \<Rightarrow> bool" where
  "js_includes [] sub = starts_with [] sub"
| "js_includes (c # cs) sub = (starts_with (c # cs) sub \<or> js_includes cs sub)"

definition replace_leading :: "char \<Rightarrow> string \<Rightarrow> string" where
  "replace_leading c s = (case s of [] \<Rightarrow> [] | x # xs \<Rightarrow> if x = c then xs else s)"

fun js_split :: "char \<Rightarrow> string \<Rightarrow> string list" where
  "js_split sep [] = [[]]"
| "js_split sep (c # cs) =
     (if c = sep then [] # js_split sep cs
      else (case js_split sep cs of [] \<Rightarrow> [[c]] | seg # segs \<Rightarrow> (c # seg) # segs))"

definition index0 :: "'a list \<Rightarrow> 'a option" where
  "index0 xs = (case xs of [] \<Rightarrow> None | x # _ \<Rightarrow> Some x)"

definition or_undefined :: "string \<Rightarrow> string option" where
  "or_undefined s = (if s = [] then None else Some s)"

definition parseSnipitUrl :: "(string \<Rightarrow> URL option) \<Rightarrow> string \<Rightarrow> SnipitUrl option" where
  "parseSnipitUrl new_URL url =
     (case new_URL url of
        None \<Rightarrow> None
      | Some parsed \<Rightarrow>
          if \<not> js_includes (hostname parsed) ''snipit'' then None
          else
            (let i = index0 (js_split CHR ''/'' (replace_leading CHR ''/'' (pathname parsed)));
                 k = or_undefined (replace_leading CHR ''#'' (hash parsed))
             in Some \<lparr>id' = i, key' = k\<rparr>))"

definition first_path_segment :: "string \<Rightarrow> string" where
  "first_path_segment p =
     takeWhile (\<lambda>c. c \<noteq> CHR ''/'') (if p \<noteq> [] \<and> hd p = CHR ''/'' then tl p else p)"

definition fragment_key :: "string \<Rightarrow> string option" where
  "fragment_key h =
     (let f = (if h \<noteq> [] \<and> hd h = CHR ''#'' then tl h else h) in
      if f = [] then None else Some f)"

section \<open>A stand-in cipher library\<close>

text \<open>
  The theorems hold for every cipher library. Where a statement has to be evaluated at one
  library, this stand-in is used: a zero keystream, a tag that sums the bytes of the key
  and of the ciphertext, and a MAC that counts the bytes of its arguments.
\<close>

definition toy_crypto :: crypto where
  "toy_crypto =
     \<lparr>gcm_keystream = (\<lambda>k n i. 0),
      gcm_tag = (\<lambda>k n c. of_nat (sum_list (map unat k) + sum_list (map unat c))),
      hmac_sha256 = (\<lambda>k m. of_nat (length k + length m))\<rparr>"


section \<open>Lemmas\<close>

subsection \<open>Base64\<close>

lemma base64_alphabet:
  "map base64_char [0..<64] =
   js ''ABCDEFGHIJKLMNOPQRSTUVWXYZabcdefghijklmnopqrstuvwxyz0123456789+/''"
  by (simp add: upt_rec base64_char_def js_def)

lemma unat_byte_lt: "unat (a :: byte) < 256"
  using unsigned_less [of a, where 'a = nat] by simp

lemma unit_of_nat: "n < 65536 \<Longrightarrow> unat (of_nat n :: 16 word) = n"
  by (simp add: unat_of_nat)

lemma low_byte_base64_char:
  "n < 64 \<Longrightarrow> low_byte (base64_char n) =
     (if n < 26 then n + 65 else if n < 52 then n + 71 else if n < 62 then n - 4
      else if n = 62 then 43 else 47)"
  by (simp add: base64_char_def low_byte_def unit_of_nat del: of_nat_add of_nat_diff)

lemma unbase64_char: "n < 64 \<Longrightarrow> unbase64 (base64_char n) = Some n"
  unfolding unbase64_def Let_def by (auto simp add: low_byte_base64_char)

lemma low_byte_pad: "low_byte (61 :: 16 word) = 61"
  by (simp add: low_byte_def)

lemma unbase64_pad: "unbase64 (61 :: 16 word) = None"
  by (simp add: unbase64_def low_byte_def)

lemma unbase64_stop: "low_byte u = 61 \<Longrightarrow> unbase64 u = None"
  by (simp add: unbase64_def)

lemma base64_char_not_pad: "n < 64 \<Longrightarrow> low_byte (base64_char n) \<noteq> 61"
  using unbase64_char [of n] unbase64_stop [of "base64_char n"] by auto

lemma sextet_bounds:
  fixes a b :: nat
  assumes "a < 256" "b < 256"
  shows "a div 4 < 64" "a mod 4 * 16 + b div 16 < 64" "a mod 16 * 4 + b div 64 < 64"
    "a mod 64 < 64" "a mod 4 * 16 < 64" "a mod 16 * 4 < 64"
  using assms by linarith+

lemma sextet_join1:
  fixes a b :: nat
  assumes "b < 256"
  shows "a div 4 * 4 + (a mod 4 * 16 + b div 16) div 16 = a"
  using assms by (simp add: div_mult2_eq [symmetric])

lemma sextet_join2:
  fixes a b c :: nat
  assumes "b < 256" "c < 256"
  shows "(a mod 4 * 16 + b div 16) mod 16 * 16 + (b mod 16 * 4 + c div 64) div 4 = b"
proof -
  have "b div 16 < 16" using assms by linarith
  then show ?thesis using assms by (simp add: div_mult2_eq [symmetric])
qed

lemma sextet_join3:
  fixes b c :: nat
  assumes "c < 256"
  shows "(b mod 16 * 4 + c div 64) mod 4 * 64 + c mod 64 = c"
proof -
  have "c div 64 < 4" using assms by linarith
  then show ?thesis using assms by simp
qed

lemma sextet_join1':
  fixes a :: nat
  shows "a div 4 * 4 + (a mod 4 * 16) div 16 = a"
  by simp

lemma sextet_join2':
  fixes a b :: nat
  assumes "b < 256"
  shows "(a mod 4 * 16 + b div 16) mod 16 * 16 + (b mod 16 * 4) div 4 = b"
proof -
  have "b div 16 < 16" using assms by linarith
  then show ?thesis using assms by simp
qed

lemma decode_sextets_encode:
  "decode_sextets (List.map_filter unbase64 (base64_encode bs)) = bs"
proof (induction bs rule: base64_encode.induct)
  case 1
  show ?case by simp
next
  case (2 a)
  show ?case
    using unat_byte_lt [of a]
    by (simp add: unbase64_char unbase64_pad sextet_bounds sextet_join1')
next
  case (3 a b)
  show ?case
    using unat_byte_lt [of a] unat_byte_lt [of b]
    by (simp add: unbase64_char unbase64_pad sextet_bounds
        sextet_join1 sextet_join2')
next
  case (4 a b c rest)
  then show ?case
    using unat_byte_lt [of a] unat_byte_lt [of b] unat_byte_lt [of c]
    by (simp add: unbase64_char sextet_bounds
        sextet_join1 sextet_join2 sextet_join3)
qed

lemma takeWhile_encode:
  "List.map_filter unbase64 (takeWhile (\<lambda>u. low_byte u \<noteq> 61) (base64_encode bs)) =
   List.map_filter unbase64 (base64_encode bs)"
proof (induction bs rule: base64_encode.induct)
  case 1
  show ?case by simp
next
  case (2 a)
  show ?case
    using unat_byte_lt [of a]
    by (simp add: unbase64_char unbase64_pad low_byte_pad base64_char_not_pad sextet_bounds)
next
  case (3 a b)
  show ?case
    using unat_byte_lt [of a] unat_byte_lt [of b]
    by (simp add: unbase64_char unbase64_pad low_byte_pad base64_char_not_pad sextet_bounds)
next
  case (4 a b c rest)
  then show ?case
    using unat_byte_lt [of a] unat_byte_lt [of b] unat_byte_lt [of c]
    by (simp add: unbase64_char base64_char_not_pad sextet_bounds)
qed

lemma base64_decode_encode: "base64_decode (base64_encode bs) = bs"
  by (simp add: base64_decode_def takeWhile_encode decode_sextets_encode)

subsection \<open>Codec\<close>

lemma takeWhile_append_pad:
  "takeWhile (\<lambda>u. low_byte u \<noteq> 61) (s @ [61])
     = takeWhile (\<lambda>u. low_byte u \<noteq> 61) s"
  by (induction s) (simp_all add: low_byte_def)

lemma base64_decode_append_pad: "base64_decode (s @ [61]) = base64_decode s"
  by (simp only: base64_decode_def takeWhile_append_pad)

lemma base64_decode_pad4: "base64_decode (pad4 s) = base64_decode s"
proof (induction s rule: pad4.induct)
  case (1 base64)
  show ?case
  proof (cases "length base64 mod 4 \<noteq> 0")
    case True
    then have "pad4 base64 = pad4 (base64 @ [61])"
      by (subst pad4.simps) simp
    moreover from 1 True
    have "base64_decode (pad4 (base64 @ [61]))
        = base64_decode (base64 @ [61])"
      by simp
    ultimately show ?thesis
      by (simp only: base64_decode_append_pad)
  next
    case False
    then have "pad4 base64 = base64"
      by (subst pad4.simps) simp
    then show ?thesis by simp
  qed
qed

lemma base64_decode_map:
  assumes "\<And>u. low_byte (f u) = low_byte u"
  shows "base64_decode (map f s) = base64_decode s"
proof -
  have u: "unbase64 (f u) = unbase64 u" for u
    by (simp add: unbase64_def assms)
  have "List.map_filter unbase64 (takeWhile (\<lambda>u. low_byte u \<noteq> 61) (map f s)) =
        List.map_filter unbase64 (takeWhile (\<lambda>u. low_byte u \<noteq> 61) s)"
    by (induction s) (simp_all add: assms u split: option.split)
  then show ?thesis by (simp add: base64_decode_def)
qed

lemma map_filter_unbase64_map:
  assumes "\<And>c. unbase64 (f c) = unbase64 c"
  shows "List.map_filter unbase64 (map f s) = List.map_filter unbase64 s"
  using assms by (induction s) (simp_all split: option.split)

lemma takeWhile_map_stop:
  assumes "\<And>c. low_byte (f c) = 61 \<longleftrightarrow> low_byte c = 61"
  shows "takeWhile (\<lambda>u. low_byte u \<noteq> 61) (map f s)
     = map f (takeWhile (\<lambda>u. low_byte u \<noteq> 61) s)"
  using assms by (induction s) simp_all

lemma base64_decode_replace:
  "base64_decode (replace_char 45 43 s) = base64_decode s"
  "base64_decode (replace_char 95 47 s) = base64_decode s"
proof -
  have u1: "unbase64 (if c = 45 then 43 else c) = unbase64 c"
    and u2: "unbase64 (if c = 95 then 47 else c) = unbase64 c"
    and s1: "low_byte (if c = 45 then 43 else c) = 61
       \<longleftrightarrow> low_byte c = 61"
    and s2: "low_byte (if c = 95 then 47 else c) = 61
       \<longleftrightarrow> low_byte c = 61" for c
    by (simp_all add: unbase64_def low_byte_def)
  show "base64_decode (replace_char 45 43 s)
      = base64_decode s"
    unfolding base64_decode_def replace_char_def
    by (subst takeWhile_map_stop, rule s1, subst map_filter_unbase64_map, rule u1, rule refl)
  show "base64_decode (replace_char 95 47 s)
      = base64_decode s"
    unfolding base64_decode_def replace_char_def
    by (subst takeWhile_map_stop, rule s2, subst map_filter_unbase64_map, rule u2, rule refl)
qed

lemma fromBase64Url_base64_decode: "fromBase64Url s = base64_decode s"
  by (simp add: fromBase64Url_def base64_decode_pad4 base64_decode_replace)

lemma map_filter_unbase64_replace:
  "List.map_filter unbase64 (replace_char 43 45 s)
     = List.map_filter unbase64 s"
  "List.map_filter unbase64 (replace_char 47 95 s)
     = List.map_filter unbase64 s"
  unfolding replace_char_def
  by (rule map_filter_unbase64_map; simp add: unbase64_def low_byte_def)+

lemma base64_encode_units:
  "u \<in> set (base64_encode bs) \<Longrightarrow> u = (61 :: 16 word) \<or> low_byte u \<noteq> 61"
proof (induction bs rule: base64_encode.induct)
  case 1
  then show ?case by simp
next
  case (2 a)
  then show ?case
    using unat_byte_lt [of a] by (auto simp add: base64_char_not_pad sextet_bounds)
next
  case (3 a b)
  then show ?case
    using unat_byte_lt [of a] unat_byte_lt [of b]
    by (auto simp add: base64_char_not_pad sextet_bounds)
next
  case (4 a b c rest)
  then show ?case
    using unat_byte_lt [of a] unat_byte_lt [of b] unat_byte_lt [of c]
    by (auto simp add: base64_char_not_pad sextet_bounds)
qed

lemma toBase64Url_no_stop: "u \<in> set (toBase64Url bs) \<Longrightarrow> low_byte u \<noteq> 61"
proof -
  assume "u \<in> set (toBase64Url bs)"
  then have ne: "u \<noteq> 61"
    and "u \<in> set (replace_char 47 95
            (replace_char 43 45 (base64_encode bs)))"
    by (simp_all add: toBase64Url_def remove_char_def)
  then obtain v where v: "v \<in> set (base64_encode bs)"
    and u: "u = v \<or> u = 45 \<or> u = 95"
    by (auto simp add: replace_char_def split: if_splits)
  from u show ?thesis
  proof (elim disjE)
    assume "u = v"
    with v ne base64_encode_units [of v bs] show ?thesis by blast
  qed (simp_all add: low_byte_def)
qed

lemma takeWhile_all: "(\<And>x. x \<in> set s \<Longrightarrow> P x) \<Longrightarrow> takeWhile P s = s"
  by (induction s) simp_all

lemma map_filter_unbase64_remove_pad:
  "List.map_filter unbase64 (remove_char 61 s) = List.map_filter unbase64 s"
  by (induction s) (simp_all add: remove_char_def unbase64_pad split: option.split)

lemma fromBase64Url_toBase64Url: "fromBase64Url (toBase64Url bs) = bs"
proof -
  have tw: "takeWhile (\<lambda>u. low_byte u \<noteq> 61) (toBase64Url bs) = toBase64Url bs"
    by (rule takeWhile_all) (rule toBase64Url_no_stop)
  have "base64_decode (toBase64Url bs)
      = decode_sextets (List.map_filter unbase64 (toBase64Url bs))"
    by (simp only: base64_decode_def tw)
  also have "\<dots> = decode_sextets (List.map_filter unbase64 (base64_encode bs))"
    by (simp add: toBase64Url_def map_filter_unbase64_remove_pad map_filter_unbase64_replace)
  finally show ?thesis
    by (simp add: fromBase64Url_base64_decode decode_sextets_encode)
qed

lemma toBase64Url_chars:
  "43 \<notin> set (toBase64Url bs)" "47 \<notin> set (toBase64Url bs)"
  "61 \<notin> set (toBase64Url bs)"
  by (auto simp add: toBase64Url_def remove_char_def replace_char_def)

lemma toBase64Url_Nil: "toBase64Url [] = []"
  by (simp add: toBase64Url_def remove_char_def replace_char_def)

lemma base64_decode_ignores:
  "base64_decode (filter (\<lambda>u. low_byte u = 61 \<or> unbase64 u \<noteq> None) s) = base64_decode s"
proof -
  have "List.map_filter unbase64 (takeWhile (\<lambda>u. low_byte u \<noteq> 61)
          (filter (\<lambda>u. low_byte u = 61 \<or> unbase64 u \<noteq> None) s)) =
        List.map_filter unbase64 (takeWhile (\<lambda>u. low_byte u \<noteq> 61) s)"
    by (induction s) (simp_all split: option.split)
  then show ?thesis by (simp add: base64_decode_def)
qed

lemma low_byte_mask: "low_byte (u AND 0xFF) = low_byte u"
proof -
  have "u AND 0xFF = u mod 256"
    using take_bit_eq_mask [of 8 u] by (simp add: mask_eq_exp_minus_1 take_bit_eq_mod)
  then have "unat (u AND 0xFF) = unat u mod 256"
    by (simp add: unat_mod)
  then show ?thesis
    by (simp add: low_byte_def)
qed

lemma base64_decode_low_bytes: "base64_decode (map (\<lambda>u. u AND 0xFF) s) = base64_decode s"
  by (rule base64_decode_map) (rule low_byte_mask)

subsection \<open>UTF-8\<close>

lemma byte_of_nat: "n < 256 \<Longrightarrow> unat (of_nat n :: byte) = n"
  by (simp add: unat_of_nat)

lemma unat_unit_lt: "unat (u :: 16 word) < 65536"
  using unsigned_less [of u, where 'a = nat] by simp


lemma utf8_write_append:
  "utf8_write st (xs @ ys) =
     (fst (utf8_write st xs) @ fst (utf8_write (snd (utf8_write st xs)) ys),
      snd (utf8_write (snd (utf8_write st xs)) ys))"
  by (induction xs arbitrary: st) simp_all

lemma utf8_step_last:
  assumes "bytes_needed st = 1" "lower_boundary st \<le> unat b" "unat b \<le> upper_boundary st"
  shows "utf8_step st b = (utf16_units (code_point st * 64 + (unat b - 0x80)), utf8_initial)"
  using assms by (simp add: utf8_step_def Let_def)

lemma utf8_step_more:
  assumes "1 < bytes_needed st" "lower_boundary st \<le> unat b" "unat b \<le> upper_boundary st"
  shows "utf8_step st b =
     ([], \<lparr>bytes_needed = bytes_needed st - 1,
           code_point = code_point st * 64 + (unat b - 0x80),
           lower_boundary = 0x80, upper_boundary = 0xBF\<rparr>)"
  using assms by (simp add: utf8_step_def Let_def)

lemma utf8_step_initial: "utf8_step utf8_initial b = utf8_start b"
  by (simp add: utf8_step_def utf8_initial_def Let_def)

lemma utf8_write_1:
  assumes "cp < 0x80"
  shows "utf8_write utf8_initial (utf8_bytes cp) = (utf16_units cp, utf8_initial)"
  using assms
  by (simp add: utf8_bytes_def utf16_units_def utf8_step_initial utf8_start_def byte_of_nat)

lemma split_64: "(n div 64) * 64 + n mod 64 = (n :: nat)"
  by simp

lemma utf8_write_2:
  assumes "0x80 \<le> cp" "cp < 0x800"
  shows "utf8_write utf8_initial (utf8_bytes cp) = (utf16_units cp, utf8_initial)"
proof -
  define b0 :: byte where "b0 = of_nat (0xC0 + cp div 64)"
  define b1 :: byte where "b1 = of_nat (0x80 + cp mod 64)"
  have d: "2 \<le> cp div 64" "cp div 64 < 32" using assms by linarith+
  have m: "cp mod 64 \<le> 63" using mod_less_divisor [of 64 cp] by linarith
  have u0: "unat b0 = 0xC0 + cp div 64"
    unfolding b0_def using d by (intro byte_of_nat) linarith
  have u1: "unat b1 = 0x80 + cp mod 64"
    unfolding b1_def using m by (intro byte_of_nat) linarith
  have bytes: "utf8_bytes cp = [b0, b1]"
    using assms by (simp add: utf8_bytes_def b0_def b1_def)
  have s0: "utf8_start b0 =
      ([], \<lparr>bytes_needed = 1, code_point = cp div 64,
            lower_boundary = 0x80, upper_boundary = 0xBF\<rparr>)"
    using d by (simp add: utf8_start_def Let_def u0)
  have s1: "utf8_step (snd (utf8_start b0)) b1 = (utf16_units cp, utf8_initial)"
    using m by (subst utf8_step_last) (simp_all add: s0 u1)
  show ?thesis
    by (simp add: bytes utf8_step_initial s1) (simp add: s0)
qed

lemma utf8_write_3:
  assumes "0x800 \<le> cp" "cp < 0x10000" "cp < 0xD800 \<or> 0xDFFF < cp"
  shows "utf8_write utf8_initial (utf8_bytes cp) = (utf16_units cp, utf8_initial)"
proof -
  define z where "z = cp div 64"
  define q where "q = z div 64"
  define r where "r = z mod 64"
  define b0 :: byte where "b0 = of_nat (0xE0 + q)"
  define b1 :: byte where "b1 = of_nat (0x80 + r)"
  define b2 :: byte where "b2 = of_nat (0x80 + cp mod 64)"
  have zz: "cp div 4096 = q"
    by (simp add: q_def z_def div_mult2_eq [symmetric])
  have zb: "32 \<le> z" "z < 1024" "z < 864 \<or> 896 \<le> z"
    unfolding z_def using assms by linarith+
  have zs: "z = q * 64 + r"
    by (simp add: q_def r_def)
  have m1: "r \<le> 63" unfolding r_def using mod_less_divisor [of 64 z] by linarith
  have m2: "cp mod 64 \<le> 63" using mod_less_divisor [of 64 cp] by linarith
  have d: "q < 16" using zb zs by linarith
  have lo: "q = 0 \<Longrightarrow> 32 \<le> r" using zb zs by linarith
  have hi: "q = 13 \<Longrightarrow> r \<le> 31" using zb zs m1 by linarith
  have join: "(q * 64 + r) * 64 + cp mod 64 = cp"
    by (simp add: z_def q_def r_def)
  have u0: "unat b0 = 0xE0 + q"
    unfolding b0_def using d by (intro byte_of_nat) linarith
  have u1: "unat b1 = 0x80 + r"
    unfolding b1_def using m1 by (intro byte_of_nat) linarith
  have u2: "unat b2 = 0x80 + cp mod 64"
    unfolding b2_def using m2 by (intro byte_of_nat) linarith
  have bytes: "utf8_bytes cp = [b0, b1, b2]"
    using assms by (simp add: utf8_bytes_def b0_def b1_def b2_def zz) (simp add: r_def z_def)
  define st1 where "st1 = \<lparr>bytes_needed = 2, code_point = q,
            lower_boundary = (if q = 0 then 0xA0 else 0x80),
            upper_boundary = (if q = 13 then 0x9F else 0xBF)\<rparr>"
  define st2 where "st2 = \<lparr>bytes_needed = 1, code_point = q * 64 + r,
            lower_boundary = 0x80, upper_boundary = 0xBF\<rparr>"
  have s0: "utf8_start b0 = ([], st1)"
    using d by (simp add: utf8_start_def Let_def u0 st1_def)
  have s1: "utf8_step st1 b1 = ([], st2)"
    using m1 lo hi by (subst utf8_step_more) (auto simp add: st1_def st2_def u1)
  have s2: "utf8_step st2 b2 = (utf16_units cp, utf8_initial)"
    using m2 join by (subst utf8_step_last) (simp_all add: st2_def u2)
  show ?thesis
    by (simp add: bytes utf8_step_initial s0 s1 s2)
qed


lemma utf8_write_4:
  assumes "0x10000 \<le> cp" "cp < 0x110000"
  shows "utf8_write utf8_initial (utf8_bytes cp) = (utf16_units cp, utf8_initial)"
proof -
  define z where "z = cp div 64"
  define y where "y = z div 64"
  define q where "q = y div 64"
  define r1 where "r1 = y mod 64"
  define r2 where "r2 = z mod 64"
  define r3 where "r3 = cp mod 64"
  define b0 :: byte where "b0 = of_nat (0xF0 + q)"
  define b1 :: byte where "b1 = of_nat (0x80 + r1)"
  define b2 :: byte where "b2 = of_nat (0x80 + r2)"
  define b3 :: byte where "b3 = of_nat (0x80 + r3)"
  have yy: "cp div 4096 = y"
    by (simp add: y_def z_def div_mult2_eq [symmetric])
  have qq: "cp div 262144 = q"
    by (simp add: q_def y_def z_def div_mult2_eq [symmetric])
  have yb: "16 \<le> y" "y < 272"
    unfolding yy [symmetric] using assms by linarith+
  have ys: "y = q * 64 + r1"
    by (simp add: q_def r1_def)
  have m1: "r1 \<le> 63" unfolding r1_def using mod_less_divisor [of 64 y] by linarith
  have m2: "r2 \<le> 63" unfolding r2_def using mod_less_divisor [of 64 z] by linarith
  have m3: "r3 \<le> 63" unfolding r3_def using mod_less_divisor [of 64 cp] by linarith
  have d: "q \<le> 4" using yb ys by linarith
  have lo: "q = 0 \<Longrightarrow> 16 \<le> r1" using yb ys by linarith
  have hi: "q = 4 \<Longrightarrow> r1 \<le> 15" using yb ys by linarith
  have join: "((q * 64 + r1) * 64 + r2) * 64 + r3 = cp"
    by (simp add: z_def y_def q_def r1_def r2_def r3_def)
  have u0: "unat b0 = 0xF0 + q"
    unfolding b0_def using d by (intro byte_of_nat) linarith
  have u1: "unat b1 = 0x80 + r1"
    unfolding b1_def using m1 by (intro byte_of_nat) linarith
  have u2: "unat b2 = 0x80 + r2"
    unfolding b2_def using m2 by (intro byte_of_nat) linarith
  have u3: "unat b3 = 0x80 + r3"
    unfolding b3_def using m3 by (intro byte_of_nat) linarith
  have bytes: "utf8_bytes cp = [b0, b1, b2, b3]"
    using assms
    by (simp add: utf8_bytes_def b0_def b1_def b2_def b3_def yy qq)
       (simp add: r1_def r2_def r3_def z_def)
  define st1 where "st1 = \<lparr>bytes_needed = 3, code_point = q,
            lower_boundary = (if q = 0 then 0x90 else 0x80),
            upper_boundary = (if q = 4 then 0x8F else 0xBF)\<rparr>"
  define st2 where "st2 = \<lparr>bytes_needed = 2, code_point = q * 64 + r1,
            lower_boundary = 0x80, upper_boundary = 0xBF\<rparr>"
  define st3 where "st3 = \<lparr>bytes_needed = 1, code_point = (q * 64 + r1) * 64 + r2,
            lower_boundary = 0x80, upper_boundary = 0xBF\<rparr>"
  have s0: "utf8_start b0 = ([], st1)"
    using d by (simp add: utf8_start_def Let_def u0 st1_def)
  have s1: "utf8_step st1 b1 = ([], st2)"
    using m1 lo hi by (subst utf8_step_more) (auto simp add: st1_def st2_def u1)
  have s2: "utf8_step st2 b2 = ([], st3)"
    using m2 by (subst utf8_step_more) (simp_all add: st2_def st3_def u2)
  have s3: "utf8_step st3 b3 = (utf16_units cp, utf8_initial)"
    using m3 join by (subst utf8_step_last) (simp_all add: st3_def u3)
  show ?thesis
    by (simp add: bytes utf8_step_initial s0 s1 s2 s3)
qed

lemma utf8_write_scalar:
  assumes "cp < 0x110000" "cp < 0xD800 \<or> 0xDFFF < cp"
  shows "utf8_write utf8_initial (utf8_bytes cp) = (utf16_units cp, utf8_initial)"
proof -
  consider "cp < 0x80" | "0x80 \<le> cp \<and> cp < 0x800" | "0x800 \<le> cp \<and> cp < 0x10000"
    | "0x10000 \<le> cp"
    by linarith
  then show ?thesis
    using assms
    by cases (simp_all add: utf8_write_1 utf8_write_2 utf8_write_3 utf8_write_4)
qed

lemma utf16_units_bmp: "utf16_units (unat u) = [u]"
  using unat_unit_lt [of u] by (simp add: utf16_units_def)

lemma utf16_units_replacement: "utf16_units 0xFFFD = [0xFFFD]"
  by (simp add: utf16_units_def)

lemma utf16_units_pair:
  assumes "is_high_surrogate u" "is_low_surrogate v"
  shows "utf16_units (0x10000 + (unat u - 0xD800) * 1024 + (unat v - 0xDC00)) = [u, v]"
proof -
  define h where "h = unat u - 0xD800"
  define l where "l = unat v - 0xDC00"
  have hl: "unat u = 0xD800 + h" "unat v = 0xDC00 + l" "l < 1024" "h < 1024"
    using assms unfolding h_def l_def is_high_surrogate_def is_low_surrogate_def
    by linarith+
  have "(h * 1024 + l) div 1024 = h" "(h * 1024 + l) mod 1024 = l"
    using hl by simp_all
  moreover have "(of_nat (unat u) :: 16 word) = u" "(of_nat (unat v) :: 16 word) = v"
    by simp_all
  then have "(of_nat (0xD800 + h) :: 16 word) = u" "(of_nat (0xDC00 + l) :: 16 word) = v"
    by (simp_all only: hl)
  ultimately show ?thesis
    unfolding h_def [symmetric] l_def [symmetric]
    by (simp add: utf16_units_def del: of_nat_add)
qed

lemma pair_code_point_range:
  assumes "is_high_surrogate u" "is_low_surrogate v"
  shows "0x10000 + (unat u - 0xD800) * 1024 + (unat v - 0xDC00) < 0x110000"
  using assms by (simp add: is_high_surrogate_def is_low_surrogate_def) linarith

lemma utf8_write_encode:
  "utf8_write utf8_initial (utf8_encode s) = (toWellFormed s, utf8_initial)"
proof (induction s rule: utf8_encode.induct)
  case 1
  show ?case by simp
next
  case (2 u)
  show ?case
  proof (cases "is_high_surrogate u \<or> is_low_surrogate u")
    case True
    then show ?thesis
      by (simp add: utf8_write_scalar utf16_units_replacement)
  next
    case False
    then have "unat u < 0xD800 \<or> 0xDFFF < unat u"
      unfolding is_high_surrogate_def is_low_surrogate_def by linarith
    with False show ?thesis
      using unat_unit_lt [of u] by (simp add: utf8_write_scalar utf16_units_bmp)
  qed
next
  case (3 u v rest)
  show ?case
  proof (cases "is_high_surrogate u \<and> is_low_surrogate v")
    case True
    have e: "utf8_encode (u # v # rest) =
        utf8_bytes (0x10000 + (unat u - 0xD800) * 1024 + (unat v - 0xDC00)) @ utf8_encode rest"
      and w: "toWellFormed (u # v # rest) = u # v # toWellFormed rest"
      using True by simp_all
    show ?thesis
      using True 3(1) [OF True] pair_code_point_range [of u v]
      by (simp only: e w utf8_write_append)
         (simp add: utf8_write_scalar utf16_units_pair)
  next
    case False
    note not_pair = this
    show ?thesis
    proof (cases "is_high_surrogate u \<or> is_low_surrogate u")
      case True
      have e: "utf8_encode (u # v # rest) = utf8_bytes 0xFFFD @ utf8_encode (v # rest)"
        and w: "toWellFormed (u # v # rest) = 0xFFFD # toWellFormed (v # rest)"
        using True by (simp_all add: not_pair)
      show ?thesis
        using 3(2) [OF not_pair True]
        by (simp only: e w utf8_write_append)
           (simp add: utf8_write_scalar utf16_units_replacement)
    next
      case False
      have e: "utf8_encode (u # v # rest) = utf8_bytes (unat u) @ utf8_encode (v # rest)"
        and w: "toWellFormed (u # v # rest) = u # toWellFormed (v # rest)"
        using False by (simp_all add: not_pair)
      have "unat u < 0xD800 \<or> 0xDFFF < unat u"
        using False unfolding is_high_surrogate_def is_low_surrogate_def by linarith
      then show ?thesis
        using 3(3) [OF not_pair False] unat_unit_lt [of u]
        by (simp only: e w utf8_write_append)
           (simp add: utf8_write_scalar utf16_units_bmp)
    qed
  qed
qed

lemma utf8_decode_encode: "utf8_decode (utf8_encode s) = toWellFormed s"
  by (simp add: utf8_decode_def utf8_write_encode utf8_end_def) (simp add: utf8_initial_def)

lemma toWellFormed_id: "isWellFormed s \<Longrightarrow> toWellFormed s = s"
  by (induction s rule: toWellFormed.induct) (auto split: if_splits)

lemma isWellFormed_no_surrogates:
  "\<forall>u\<in>set s. \<not> is_high_surrogate u \<and> \<not> is_low_surrogate u \<Longrightarrow> isWellFormed s"
  by (induction s rule: isWellFormed.induct) auto

subsection \<open>Cipher objects\<close>

lemma length_be_bytes: "length (be_bytes n w) = n"
  by (simp add: be_bytes_def)

lemma length_xor_stream: "length (xor_stream ks pos bs) = length bs"
  by (induction bs arbitrary: pos) simp_all

lemma xor_stream_involution: "xor_stream ks pos (xor_stream ks pos bs) = bs"
  by (induction bs arbitrary: pos) (simp_all add: xor.assoc)

lemma base64_encode_append:
  "length xs mod 3 = 0 \<Longrightarrow> base64_encode (xs @ ys) = base64_encode xs @ base64_encode ys"
  by (induction xs rule: base64_encode.induct) simp_all

lemma base64_write_end:
  "fst (base64_write [] out) @ base64_end (snd (base64_write [] out)) [] = base64_encode out"
proof -
  define m where "m = length out - length out mod 3"
  have m3: "length (take m out) mod 3 = 0"
    unfolding m_def by (simp add: min_def) presburger
  have short: "length (drop m out) < 3"
    unfolding m_def by simp
  then have "length (drop m out) - length (drop m out) mod 3 = 0"
    by simp
  then have "base64_end (drop m out) [] = base64_encode (drop m out)"
    by (simp add: base64_end_def base64_write_def Let_def)
  then have "fst (base64_write [] out) @ base64_end (snd (base64_write [] out)) []
      = base64_encode (take m out) @ base64_encode (drop m out)"
    by (simp add: base64_write_def Let_def m_def)
  also have "\<dots> = base64_encode (take m out @ drop m out)"
    using m3 by (simp only: base64_encode_append)
  finally show ?thesis by simp
qed

lemma stake_12_not_Nil: "stake 12 s \<noteq> []"
  by (metis length_stake list.size(3) zero_neq_numeral)

lemma base64_decode_Nil: "base64_decode [] = []"
  by (simp add: base64_decode_def)

lemma IsValidGCMTagLength_16: "IsValidGCMTagLength 16"
  by (simp add: IsValidGCMTagLength_def)

lemma seal_steps:
  assumes "length k = 32" "nonce \<noteq> []" "length nonce \<le> 128"
  shows "\<exists>c. createCipheriv k nonce TAG_LENGTH = Inr c \<and>
     fst (cipher_update lib c p) @ fst (cipher_final lib (snd (cipher_update lib c p)))
       = base64_encode (fst (gcm_seal lib k nonce (utf8_encode p))) \<and>
     getAuthTag (snd (cipher_final lib (snd (cipher_update lib c p))))
       = Inr (snd (gcm_seal lib k nonce (utf8_encode p)))"
  using assms
  by (simp add: createCipheriv_def GCM_IV_MAX_SIZE_def TAG_LENGTH_def IsValidGCMTagLength_16
      cipher_update_def
      cipher_final_def getAuthTag_def gcm_seal_def Let_def split_beta length_be_bytes
      base64_write_end)

lemma decrypt_steps:
  "(case createDecipheriv k nonce TAG_LENGTH of
        Inl e \<Rightarrow> Inl e
      | Inr decipher \<Rightarrow>
          (case setAuthTag decipher t of
             Inl e \<Rightarrow> Inl e
           | Inr decipher1 \<Rightarrow>
               (let (plaintext, decipher2) = decipher_update lib decipher1 data in
                case decipher_final lib decipher2 of
                  Inl e \<Rightarrow> Inl e
                | Inr fin \<Rightarrow> Inr (plaintext @ fin)))) =
   (if nonce = [] \<or> 128 < length nonce then Inl ERR_CRYPTO_INVALID_IV
    else if length k \<noteq> 32 then Inl ERR_CRYPTO_INVALID_KEYLEN
    else if length t \<noteq> 16 then Inl ERR_CRYPTO_INVALID_AUTH_TAG
    else case gcm_open lib k nonce (base64_decode data) t of
           None \<Rightarrow> Inl Unable_to_authenticate_data
         | Some pt \<Rightarrow> Inr (utf8_decode pt))"
  by (simp add: createDecipheriv_def GCM_IV_MAX_SIZE_def TAG_LENGTH_def IsValidGCMTagLength_16
      setAuthTag_def
      decipher_update_def decipher_final_def gcm_open_def Let_def split_beta length_be_bytes
      utf8_decode_def)

lemma encrypt_result:
  "fst (encrypt lib p rng) =
     Inr \<lparr>encrypted =
           \<lparr>ciphertext = base64_encode (fst (gcm_seal lib (stake 32 rng)
                                           (stake 12 (sdrop 32 rng)) (utf8_encode p))),
            iv = base64_encode (stake 12 (sdrop 32 rng)),
            tag = base64_encode (snd (gcm_seal lib (stake 32 rng)
                                           (stake 12 (sdrop 32 rng)) (utf8_encode p)))\<rparr>,
          key = toBase64Url (stake 32 rng)\<rparr>"
proof -
  have k: "length (stake 32 rng) = 32" by simp
  have n: "stake 12 (sdrop 32 rng) \<noteq> []"
    by (metis length_stake list.size(3) zero_neq_numeral)
  obtain c where c: "createCipheriv (stake 32 rng) (stake 12 (sdrop 32 rng)) TAG_LENGTH = Inr c"
    and ct: "fst (cipher_update lib c p)
               @ fst (cipher_final lib (snd (cipher_update lib c p)))
       = base64_encode (fst (gcm_seal lib (stake 32 rng) (stake 12 (sdrop 32 rng))
                               (utf8_encode p)))"
    and t: "getAuthTag (snd (cipher_final lib (snd (cipher_update lib c p))))
       = Inr (snd (gcm_seal lib (stake 32 rng) (stake 12 (sdrop 32 rng))
                               (utf8_encode p)))"
    using seal_steps [OF k n, of lib p] by auto
  show ?thesis
    by (simp add: encrypt_def generateKey_def randomBytes_def KEY_LENGTH_def IV_LENGTH_def
        c split_beta Let_def ct t)
qed

lemma decrypt_result:
  "decrypt lib enc ks =
   (if base64_decode (iv enc) = [] \<or> 128 < length (base64_decode (iv enc))
    then Inl ERR_CRYPTO_INVALID_IV
    else if length (fromBase64Url ks) \<noteq> 32 then Inl ERR_CRYPTO_INVALID_KEYLEN
    else if length (base64_decode (tag enc)) \<noteq> 16 then Inl ERR_CRYPTO_INVALID_AUTH_TAG
    else case gcm_open lib (fromBase64Url ks) (base64_decode (iv enc))
                (base64_decode (ciphertext enc)) (base64_decode (tag enc)) of
           None \<Rightarrow> Inl Unable_to_authenticate_data
         | Some pt \<Rightarrow> Inr (utf8_decode pt))"
  unfolding decrypt_def Let_def by (rule decrypt_steps [unfolded Let_def])

lemma gcm_open_seal:
  "gcm_open lib k nonce (fst (gcm_seal lib k nonce pt)) (snd (gcm_seal lib k nonce pt)) = Some pt"
  by (simp add: gcm_open_def gcm_seal_def Let_def xor_stream_involution)

lemma length_gcm_seal:
  "length (fst (gcm_seal lib k nonce pt)) = length pt"
  "length (snd (gcm_seal lib k nonce pt)) = 16"
  by (simp_all add: gcm_seal_def Let_def length_xor_stream length_be_bytes)

lemma decrypt_encrypt:
  "\<exists>r. fst (encrypt lib p rng) = Inr r \<and>
       decrypt lib (encrypted r) (key r) = Inr (toWellFormed p)"
proof -
  have n: "stake 12 (sdrop 32 rng) \<noteq> []"
    by (metis length_stake list.size(3) zero_neq_numeral)
  show ?thesis
    using n
    by (simp add: encrypt_result decrypt_result base64_decode_encode fromBase64Url_toBase64Url
        gcm_open_seal length_gcm_seal utf8_decode_encode)
qed

subsection \<open>Password mode\<close>

lemma length_pbkdf2_block: "length (pbkdf2_block prf p s c i) = 32"
  by (simp add: pbkdf2_block_def Let_def length_be_bytes)

lemma length_pbkdf2: "length (pbkdf2 prf p s c n) = n"
proof -
  have "length (concat (map (pbkdf2_block prf p s c) [1..<Suc ((n + 31) div 32)]))
      = 32 * ((n + 31) div 32)"
    by (simp add: length_concat comp_def length_pbkdf2_block sum_list_triv)
  moreover have "n \<le> 32 * ((n + 31) div 32)"
    by linarith
  ultimately show ?thesis
    by (simp add: pbkdf2_def)
qed

lemma pbkdf2_one_block: "pbkdf2 prf p s c 32 = pbkdf2_block prf p s c 1"
  by (simp add: pbkdf2_def length_pbkdf2_block)

lemma be_bytes_block_index: "be_bytes 4 (1 :: 32 word) = [0, 0, 0, 1]"
  by (simp add: be_bytes_def upt_rec)

lemma deriveKeyFromPassword_result:
  "deriveKeyFromPassword lib pw s = Inr (pbkdf2 (hmac_sha256 lib) (utf8_encode pw) s 100000 32)"
  by (simp add: deriveKeyFromPassword_def pbkdf2Sync_def KEY_LENGTH_def)

lemma encryptWithPassword_result:
  "fst (encryptWithPassword lib p pw rng) =
     Inr \<lparr>pw_encrypted =
           \<lparr>ciphertext = base64_encode (fst (gcm_seal lib
                (pbkdf2 (hmac_sha256 lib) (utf8_encode pw) (stake 16 rng) 100000 32)
                (stake 12 (sdrop 16 rng)) (utf8_encode p))),
            iv = base64_encode (stake 12 (sdrop 16 rng)),
            tag = base64_encode (snd (gcm_seal lib
                (pbkdf2 (hmac_sha256 lib) (utf8_encode pw) (stake 16 rng) 100000 32)
                (stake 12 (sdrop 16 rng)) (utf8_encode p)))\<rparr>,
          salt = base64_encode (stake 16 rng)\<rparr>"
proof -
  define k where "k = pbkdf2 (hmac_sha256 lib) (utf8_encode pw) (stake 16 rng) 100000 32"
  have k: "length k = 32" by (simp add: k_def length_pbkdf2)
  have n: "stake 12 (sdrop 16 rng) \<noteq> []"
    by (metis length_stake list.size(3) zero_neq_numeral)
  obtain c where c: "createCipheriv k (stake 12 (sdrop 16 rng)) TAG_LENGTH = Inr c"
    and ct: "fst (cipher_update lib c p)
               @ fst (cipher_final lib (snd (cipher_update lib c p)))
       = base64_encode (fst (gcm_seal lib k (stake 12 (sdrop 16 rng)) (utf8_encode p)))"
    and t: "getAuthTag (snd (cipher_final lib (snd (cipher_update lib c p))))
       = Inr (snd (gcm_seal lib k (stake 12 (sdrop 16 rng)) (utf8_encode p)))"
    using seal_steps [OF k n, of lib p] by auto
  show ?thesis
    unfolding k_def [symmetric]
    by (simp add: encryptWithPassword_def randomBytes_def IV_LENGTH_def
        deriveKeyFromPassword_result k_def [symmetric] c split_beta Let_def ct t)
qed

lemma decryptWithPassword_result:
  "decryptWithPassword lib enc pw s =
   (if base64_decode (iv enc) = [] \<or> 128 < length (base64_decode (iv enc))
    then Inl ERR_CRYPTO_INVALID_IV
    else if length (base64_decode (tag enc)) \<noteq> 16 then Inl ERR_CRYPTO_INVALID_AUTH_TAG
    else case gcm_open lib (pbkdf2 (hmac_sha256 lib) (utf8_encode pw) (base64_decode s) 100000 32)
                (base64_decode (iv enc)) (base64_decode (ciphertext enc))
                (base64_decode (tag enc)) of
           None \<Rightarrow> Inl Unable_to_authenticate_data
         | Some pt \<Rightarrow> Inr (utf8_decode pt))"
  unfolding decryptWithPassword_def Let_def deriveKeyFromPassword_result sum.case
  by (simp only: decrypt_steps [unfolded Let_def] length_pbkdf2 simp_thms if_False)

lemma decryptWithPassword_encryptWithPassword:
  "\<exists>r. fst (encryptWithPassword lib p pw rng) = Inr r \<and>
       decryptWithPassword lib (pw_encrypted r) pw (salt r) = Inr (toWellFormed p)"
proof -
  have n: "stake 12 (sdrop 16 rng) \<noteq> []"
    by (metis length_stake list.size(3) zero_neq_numeral)
  show ?thesis
    using n
    by (simp add: encryptWithPassword_result decryptWithPassword_result base64_decode_encode
        gcm_open_seal length_gcm_seal utf8_decode_encode)
qed

lemma isWellFormed_js: "isWellFormed (js s)"
proof (rule isWellFormed_no_surrogates, rule ballI)
  fix u assume "u \<in> set (js s)"
  then obtain c where u: "u = of_nat (of_char c)"
    by (auto simp add: js_def)
  have "(of_char c :: nat) < 65536"
    using nat_of_char_less_256 [of c] by linarith
  then have "unat u = of_char c"
    by (simp add: u unat_of_nat)
  then have "unat u < 256"
    using nat_of_char_less_256 [of c] by simp
  then show "\<not> is_high_surrogate u \<and> \<not> is_low_surrogate u"
    by (simp add: is_high_surrogate_def is_low_surrogate_def)
qed

subsection \<open>Counting keys and tags\<close>

lemma card_keys: "card {k :: byte list. length k = 32} = 256 ^ 32"
  using card_lists_length_eq [of "UNIV :: byte set" 32] by (simp add: card_word)

lemma finite_keys: "finite {k :: byte list. length k = 32}"
  using finite_lists_length_eq [of "UNIV :: byte set" 32] by simp

lemma pigeonhole_into:
  assumes "finite B" "f ` A \<subseteq> B" "card B < card A"
  shows "\<exists>x\<in>A. \<exists>y\<in>A. x \<noteq> y \<and> f x = f y"
proof -
  have "card (f ` A) \<le> card B"
    using assms(1,2) by (rule card_mono)
  also have "\<dots> < card A"
    by (rule assms(3))
  finally have "\<not> inj_on f A"
    by (rule pigeonhole)
  then show ?thesis
    by (auto simp add: inj_on_def)
qed

lemma finite_envelopes:
  "finite ({c :: byte list. length c = m} \<times> (UNIV :: 128 word set))"
  using finite_lists_length_eq [of "UNIV :: byte set" m] by simp

lemma card_envelopes:
  "card ({c :: byte list. length c = m} \<times> (UNIV :: 128 word set)) = 256 ^ m * 2 ^ 128"
  using card_lists_length_eq [of "UNIV :: byte set" m]
  by (simp add: card_cartesian_product card_word)

lemma few_envelopes:
  assumes "m < 16"
  shows "(256 :: nat) ^ m * 2 ^ 128 \<le> 2 ^ 248"
proof -
  have "(256 :: nat) ^ m \<le> 256 ^ 15"
    using assms by (intro power_increasing) simp_all
  then have "(256 :: nat) ^ m * 2 ^ 128 \<le> 256 ^ 15 * 2 ^ 128"
    by simp
  also have "\<dots> = 2 ^ 248"
    by simp
  finally show ?thesis .
qed

lemma snd_gcm_seal:
  "snd (gcm_seal lib k n pt) = be_bytes 16 (gcm_tag lib k n (fst (gcm_seal lib k n pt)))"
  by (simp add: gcm_seal_def Let_def)

lemma sealed_collision_opens:
  assumes "length k' = 32"
    and c: "fst (gcm_seal lib k n pt) = fst (gcm_seal lib k' n pt)"
    and t: "gcm_tag lib k n (fst (gcm_seal lib k n pt))
          = gcm_tag lib k' n (fst (gcm_seal lib k' n pt))"
  shows "gcm_open lib k' n (fst (gcm_seal lib k n pt)) (snd (gcm_seal lib k n pt)) = Some pt"
proof -
  have "snd (gcm_seal lib k n pt) = snd (gcm_seal lib k' n pt)"
    by (simp only: snd_gcm_seal t)
  then show ?thesis
    by (simp only: c gcm_open_seal)
qed

lemma wrong_key_accepted:
  assumes "length (utf8_encode p) < 16"
  shows "\<exists>rng r k'. fst (encrypt lib p rng) = Inr r \<and>
     length (fromBase64Url k') = 32 \<and> fromBase64Url k' \<noteq> fromBase64Url (key r) \<and>
     decrypt lib (encrypted r) k' = Inr (toWellFormed p)"
proof -
  define pt where "pt = utf8_encode p"
  define n where "n = replicate 12 (0 :: byte)"
  define f where
    "f k = (fst (gcm_seal lib k n pt), gcm_tag lib k n (fst (gcm_seal lib k n pt)))" for k
  define A where "A = {k :: byte list. length k = 32}"
  define B where "B = {c :: byte list. length c = length pt} \<times> (UNIV :: 128 word set)"
  have "finite B"
    unfolding B_def by (rule finite_envelopes)
  moreover have "f ` A \<subseteq> B"
    by (auto simp add: f_def B_def length_gcm_seal)
  moreover have "card B < card A"
  proof -
    have "card B \<le> 2 ^ 248"
      unfolding B_def card_envelopes using assms by (intro few_envelopes) (simp add: pt_def)
    also have "\<dots> < card A"
      by (simp add: A_def card_keys)
    finally show ?thesis .
  qed
  ultimately obtain k k' where "k \<in> A" "k' \<in> A" and ne: "k \<noteq> k'" and eq: "f k = f k'"
    using pigeonhole_into [of B f A] by blast
  then have k: "length k = 32" and k': "length k' = 32"
    by (simp_all add: A_def)
  from eq have "fst (f k) = fst (f k')"
    by simp
  then have c: "fst (gcm_seal lib k n pt) = fst (gcm_seal lib k' n pt)"
    unfolding f_def fst_conv .
  from eq have "snd (f k) = snd (f k')"
    by simp
  then have t: "gcm_tag lib k n (fst (gcm_seal lib k n pt))
          = gcm_tag lib k' n (fst (gcm_seal lib k' n pt))"
    unfolding f_def snd_conv .
  have op: "gcm_open lib k' n (fst (gcm_seal lib k n pt)) (snd (gcm_seal lib k n pt)) = Some pt"
    using k' c t by (rule sealed_collision_opens)
  define rng where "rng = k @- n @- sconst 0"
  have s1: "stake 32 rng = k"
    using k by (simp add: rng_def stake_shift)
  have ln: "length n = 12"
    by (simp add: n_def)
  have s2: "stake 12 (sdrop 32 rng) = n"
    using k ln by (simp add: rng_def sdrop_shift stake_shift)
  define r where "r =
     \<lparr>encrypted =
        \<lparr>ciphertext = base64_encode (fst (gcm_seal lib k n pt)),
         iv = base64_encode n,
         tag = base64_encode (snd (gcm_seal lib k n pt))\<rparr>,
      key = toBase64Url k\<rparr>"
  have e: "fst (encrypt lib p rng) = Inr r"
    by (simp add: encrypt_result s1 s2 r_def pt_def)
  have d: "decrypt lib (encrypted r) (toBase64Url k') = Inr (toWellFormed p)"
    using k' ln op
    by (simp add: r_def decrypt_result base64_decode_encode fromBase64Url_toBase64Url
        length_gcm_seal pt_def utf8_decode_encode n_def)
  have "length (fromBase64Url (toBase64Url k')) = 32"
    "fromBase64Url (toBase64Url k') \<noteq> fromBase64Url (key r)"
    using k' ne by (simp_all add: fromBase64Url_toBase64Url r_def)
  with e d show ?thesis
    by blast
qed

lemma decryptWithPassword_same_bytes:
  "utf8_encode pw' = utf8_encode pw \<Longrightarrow>
   decryptWithPassword lib enc pw' s = decryptWithPassword lib enc pw s"
  by (simp add: decryptWithPassword_result)

lemma utf8_encode_lone_surrogates: "utf8_encode [0xDC00] = utf8_encode [0xD800]"
  by (simp add: is_high_surrogate_def is_low_surrogate_def)

lemma utf8_encode_inj:
  assumes "isWellFormed s" "isWellFormed s'" "utf8_encode s = utf8_encode s'"
  shows "s = s'"
proof -
  have "toWellFormed s = toWellFormed s'"
    using assms(3) by (metis utf8_decode_encode)
  then show ?thesis
    using assms(1,2) by (simp add: toWellFormed_id)
qed

lemma wrong_password_accepted:
  assumes "length (utf8_encode p) < 16"
  shows "\<exists>rng pw pw' r. utf8_encode pw' \<noteq> utf8_encode pw \<and>
     fst (encryptWithPassword lib p pw rng) = Inr r \<and>
     decryptWithPassword lib (pw_encrypted r) pw' (salt r) = Inr (toWellFormed p)"
proof -
  define pt where "pt = utf8_encode p"
  define s where "s = replicate 16 (1 :: byte)"
  define n where "n = replicate 12 (1 :: byte)"
  define rng where "rng = s @- n @- sconst 0"
  define kdf where "kdf pw = pbkdf2 (hmac_sha256 lib) (utf8_encode pw) s 100000 32" for pw
  define A where "A = {pw :: jsstring. set pw \<subseteq> {0x61, 0x62} \<and> length pw = 249}"
  define B where "B = {c :: byte list. length c = length pt} \<times> (UNIV :: 128 word set)"
  define f where
    "f pw = (fst (gcm_seal lib (kdf pw) n pt),
             gcm_tag lib (kdf pw) n (fst (gcm_seal lib (kdf pw) n pt)))" for pw
  have "finite B"
    unfolding B_def by (rule finite_envelopes)
  moreover have "f ` A \<subseteq> B"
    by (auto simp add: f_def B_def length_gcm_seal)
  moreover have "card B < card A"
  proof -
    have c2: "card {0x61 :: 16 word, 0x62} = 2"
      by simp
    have "card A = card {0x61 :: 16 word, 0x62} ^ 249"
      unfolding A_def by (rule card_lists_length_eq) simp
    then have a: "card A = 2 ^ 249"
      by (simp only: c2)
    have "card B \<le> 2 ^ 248"
      unfolding B_def card_envelopes using assms by (intro few_envelopes) (simp add: pt_def)
    also have "\<dots> < card A"
      by (simp add: a)
    finally show ?thesis .
  qed
  ultimately obtain pw pw' where pw: "pw \<in> A" "pw' \<in> A" "pw \<noteq> pw'" and eq: "f pw = f pw'"
    using pigeonhole_into [of B f A] by blast
  have wf: "isWellFormed x" if "x \<in> A" for x
  proof (rule isWellFormed_no_surrogates, rule ballI)
    fix u assume "u \<in> set x"
    with that have "u = 0x61 \<or> u = 0x62"
      by (auto simp add: A_def)
    then show "\<not> is_high_surrogate u \<and> \<not> is_low_surrogate u"
      by (auto simp add: is_high_surrogate_def is_low_surrogate_def)
  qed
  have ne: "utf8_encode pw' \<noteq> utf8_encode pw"
    using utf8_encode_inj [OF wf [OF pw(2)] wf [OF pw(1)]] pw(3) by blast
  have k': "length (kdf pw') = 32"
    by (simp add: kdf_def length_pbkdf2)
  from eq have "fst (f pw) = fst (f pw')"
    by simp
  then have c: "fst (gcm_seal lib (kdf pw) n pt) = fst (gcm_seal lib (kdf pw') n pt)"
    unfolding f_def fst_conv .
  from eq have "snd (f pw) = snd (f pw')"
    by simp
  then have t: "gcm_tag lib (kdf pw) n (fst (gcm_seal lib (kdf pw) n pt))
          = gcm_tag lib (kdf pw') n (fst (gcm_seal lib (kdf pw') n pt))"
    unfolding f_def snd_conv .
  have op: "gcm_open lib (kdf pw') n (fst (gcm_seal lib (kdf pw) n pt))
      (snd (gcm_seal lib (kdf pw) n pt)) = Some pt"
    using k' c t by (rule sealed_collision_opens)
  have s1: "stake 16 rng = s"
    by (simp add: rng_def s_def stake_shift)
  have s2: "stake 12 (sdrop 16 rng) = n"
    by (simp add: rng_def s_def n_def sdrop_shift stake_shift)
  have ln: "length n = 12"
    by (simp add: n_def)
  define r where "r =
     \<lparr>pw_encrypted =
        \<lparr>ciphertext = base64_encode (fst (gcm_seal lib (kdf pw) n pt)),
         iv = base64_encode n,
         tag = base64_encode (snd (gcm_seal lib (kdf pw) n pt))\<rparr>,
      salt = base64_encode s\<rparr>"
  have e: "fst (encryptWithPassword lib p pw rng) = Inr r"
    by (simp add: encryptWithPassword_result s1 s2 r_def pt_def kdf_def)
  have d: "decryptWithPassword lib (pw_encrypted r) pw' (salt r) = Inr (toWellFormed p)"
    using ln op
    by (simp add: r_def decryptWithPassword_result base64_decode_encode length_gcm_seal
        pt_def utf8_decode_encode n_def kdf_def)
  show ?thesis
    using ne e d by blast
qed

subsection \<open>The request of createSnippet and the URL parser\<close>

lemma starts_with_iff: "starts_with s p \<longleftrightarrow> (\<exists>post. s = p @ post)"
  by (induction s p rule: starts_with.induct) auto

lemma js_includes_iff: "js_includes h s \<longleftrightarrow> (\<exists>pre post. h = pre @ s @ post)"
proof (induction h)
  case Nil
  show ?case by (auto simp add: starts_with_iff)
next
  case (Cons c cs)
  show ?case
  proof
    assume "js_includes (c # cs) s"
    then consider "starts_with (c # cs) s" | "js_includes cs s"
      by auto
    then show "\<exists>pre post. c # cs = pre @ s @ post"
    proof cases
      case 1
      then obtain post where "c # cs = s @ post"
        by (auto simp add: starts_with_iff)
      then have "c # cs = [] @ s @ post" by simp
      then show ?thesis by blast
    next
      case 2
      then obtain pre post where "cs = pre @ s @ post"
        using Cons.IH by blast
      then have "c # cs = (c # pre) @ s @ post" by simp
      then show ?thesis by blast
    qed
  next
    assume "\<exists>pre post. c # cs = pre @ s @ post"
    then obtain pre post where eq: "c # cs = pre @ s @ post"
      by blast
    show "js_includes (c # cs) s"
    proof (cases pre)
      case Nil
      with eq have "starts_with (c # cs) s"
        by (auto simp add: starts_with_iff)
      then show ?thesis by simp
    next
      case (Cons x pre')
      with eq have "cs = pre' @ s @ post" by simp
      then have "js_includes cs s"
        using Cons.IH by blast
      then show ?thesis by simp
    qed
  qed
qed

lemma js_split_not_Nil: "js_split sep s \<noteq> []"
  by (induction s) (auto split: list.splits)

lemma index0_js_split: "index0 (js_split sep s) = Some (takeWhile (\<lambda>c. c \<noteq> sep) s)"
  by (induction s) (auto simp add: index0_def split: list.splits)

lemma replace_leading_alt:
  "replace_leading c s = (if s \<noteq> [] \<and> hd s = c then tl s else s)"
  by (cases s) (simp_all add: replace_leading_def)

lemma createSnippet_sends_content_and_password:
  "\<exists>body. req_body (createSnippet_sends apiUrl now options) = Some body \<and>
     (''content'', JString (content options)) \<in> set body \<and>
     (\<forall>pw. password options = Some pw \<longrightarrow> (''password'', JString pw) \<in> set body)"
  by (simp add: createSnippet_sends_def makeRequest_sends_def JSON_stringify_def json_field_def Let_def)


section \<open>Claims\<close>

subsection \<open>The URL-safe codec\<close>

text \<open>
  Claim C4. For every byte sequence \<open>b\<close>, the empty one included,
  \<open>fromBase64Url (toBase64Url b) = b\<close>; the empty sequence encodes to the empty string;
  and the encoded text never contains \<open>+\<close>, \<open>/\<close> or \<open>=\<close>.
\<close>

theorem C4_base64url_roundtrip:
  "fromBase64Url (toBase64Url b) = b \<and>
   toBase64Url [] = [] \<and>
   code_unit CHR ''+'' \<notin> set (toBase64Url b) \<and>
   code_unit CHR ''/'' \<notin> set (toBase64Url b) \<and>
   code_unit CHR ''='' \<notin> set (toBase64Url b)"
  by (simp add: fromBase64Url_toBase64Url toBase64Url_Nil toBase64Url_chars)

text \<open>
  Claim C5 says that \<open>fromBase64Url\<close> fails with \<open>InvalidEncoding\<close> on every string
  holding a character outside the URL-safe alphabet. The function has no failing path:
  the string \<open>AA+A\<close> holds \<open>+\<close>, which is outside that alphabet, and is decoded to three
  bytes.
\<close>

theorem C5_counterexample:
  "CHR ''+'' \<in> set ''AA+A'' \<and> CHR ''+'' \<notin> url_safe_alphabet \<and>
   fromBase64Url (js ''AA+A'') = [0, 15, 128]"
  by (simp add: url_safe_alphabet_def fromBase64Url_base64_decode base64_decode_def
      unbase64_def low_byte_def js_def)

text \<open>
  Claim C5, amended. \<open>fromBase64Url\<close> returns a byte sequence for every JavaScript string:
  Node's lenient base64 decoding of the string. The decoding looks at the low byte of
  each code unit only; it reads the standard and the URL-safe alphabet alike, skips every
  code unit whose low byte is in neither, and stops at the first code unit whose low byte
  is \<open>=\<close>. Dropping the skipped code units from the input does not change the result.
\<close>

theorem C5_fromBase64Url_lenient:
  "fromBase64Url s = base64_decode s \<and>
   fromBase64Url (map (\<lambda>u. u AND 0xFF) s) = fromBase64Url s \<and>
   fromBase64Url (filter (\<lambda>u. low_byte u = 61 \<or> unbase64 u \<noteq> None) s) = fromBase64Url s"
  by (simp only: fromBase64Url_base64_decode base64_decode_ignores base64_decode_low_bytes
      simp_thms)

text \<open>
  The amended claim C5 at three strings: the code unit 0141 is read as its low byte 41,
  the letter \<open>A\<close>, so that the string decodes to three bytes where \<open>AAA\<close> gives two; and
  in \<open>A!A*=\<close> the characters \<open>!\<close> and \<open>*\<close> are skipped.
\<close>

theorem C5_fromBase64Url_lenient_witness:
  "fromBase64Url [0x0141, 0x41, 0x41, 0x41] = [0, 0, 0] \<and>
   map (\<lambda>u. u AND 0xFF) [0x0141, 0x41, 0x41, 0x41 :: 16 word] = js ''AAAA'' \<and>
   fromBase64Url (js ''AAA'') = [0, 0] \<and>
   fromBase64Url (js ''A!A*='') = [0] \<and>
   filter (\<lambda>u. low_byte u = 61 \<or> unbase64 u \<noteq> None) (js ''A!A*='') = js ''AA='' \<and>
   fromBase64Url (js ''AA='') = fromBase64Url (js ''A!A*='')"
  using C5_fromBase64Url_lenient [of "[0x0141, 0x41, 0x41, 0x41]"]
    C5_fromBase64Url_lenient [of "js ''AAA''"] C5_fromBase64Url_lenient [of "js ''A!A*=''"]
  by (simp add: base64_decode_def unbase64_def low_byte_def js_def)

subsection \<open>Random-key mode\<close>

text \<open>
  Claim C1 says that \<open>decrypt\<close> of the envelope and key of \<open>encrypt p\<close> returns \<open>p\<close> for
  every string. A JavaScript string may hold an unpaired surrogate: \<open>cipher.update\<close> writes
  it as the UTF-8 of U+FFFD, so the string of the one code unit D800 comes back as FFFD,
  whatever the key and the nonce.
\<close>

theorem C1_counterexample:
  "\<forall>lib rng. \<exists>r. fst (encrypt lib [0xD800] rng) = Inr r \<and>
     decrypt lib (encrypted r) (key r) = Inr [0xFFFD] \<and>
     decrypt lib (encrypted r) (key r) \<noteq> Inr [0xD800]"
proof (intro allI)
  fix lib rng
  have "toWellFormed [0xD800] = [0xFFFD]"
    by (simp add: is_high_surrogate_def)
  then show "\<exists>r. fst (encrypt lib [0xD800] rng) = Inr r \<and>
     decrypt lib (encrypted r) (key r) = Inr [0xFFFD] \<and>
     decrypt lib (encrypted r) (key r) \<noteq> Inr [0xD800]"
    using decrypt_encrypt [of lib "[0xD800]" rng] by auto
qed

text \<open>
  Claim C1, amended. For every well-formed string \<open>p\<close> (no unpaired surrogate; the empty
  string, every string of Unicode scalar values and strings of any length are such),
  every cipher library and every output of the random source, \<open>encrypt\<close> succeeds and
  \<open>decrypt\<close> of its envelope with its key returns exactly \<open>p\<close>.
\<close>

theorem C1_decrypt_encrypt:
  "isWellFormed p \<Longrightarrow>
   \<exists>r. fst (encrypt lib p rng) = Inr r \<and> decrypt lib (encrypted r) (key r) = Inr p"
  using decrypt_encrypt [of lib p rng] by (simp add: toWellFormed_id)

theorem C1_decrypt_encrypt_witness:
  "\<forall>lib rng.
     isWellFormed (js ''Hello, World!'') \<and>
     (\<exists>r. fst (encrypt lib (js ''Hello, World!'') rng) = Inr r \<and>
          decrypt lib (encrypted r) (key r) = Inr (js ''Hello, World!'')) \<and>
     isWellFormed [] \<and>
     (\<exists>r. fst (encrypt lib [] rng) = Inr r \<and> decrypt lib (encrypted r) (key r) = Inr []) \<and>
     isWellFormed (replicate 10000 0x78) \<and>
     (\<exists>r. fst (encrypt lib (replicate 10000 0x78) rng) = Inr r \<and>
          decrypt lib (encrypted r) (key r) = Inr (replicate 10000 0x78)) \<and>
     isWellFormed [0xD83C, 0xDF89] \<and>
     (\<exists>r. fst (encrypt lib [0xD83C, 0xDF89] rng) = Inr r \<and>
          decrypt lib (encrypted r) (key r) = Inr [0xD83C, 0xDF89])"
proof (intro allI)
  fix lib rng
  have w1: "isWellFormed (js ''Hello, World!'')"
    by (rule isWellFormed_js)
  have w2: "isWellFormed []"
    by simp
  have w3: "isWellFormed (replicate 10000 0x78)"
    by (rule isWellFormed_no_surrogates)
       (simp add: is_high_surrogate_def is_low_surrogate_def)
  have w4: "isWellFormed [0xD83C, 0xDF89]"
    by (simp add: is_high_surrogate_def is_low_surrogate_def)
  show "isWellFormed (js ''Hello, World!'') \<and>
     (\<exists>r. fst (encrypt lib (js ''Hello, World!'') rng) = Inr r \<and>
          decrypt lib (encrypted r) (key r) = Inr (js ''Hello, World!'')) \<and>
     isWellFormed [] \<and>
     (\<exists>r. fst (encrypt lib [] rng) = Inr r \<and> decrypt lib (encrypted r) (key r) = Inr []) \<and>
     isWellFormed (replicate 10000 0x78) \<and>
     (\<exists>r. fst (encrypt lib (replicate 10000 0x78) rng) = Inr r \<and>
          decrypt lib (encrypted r) (key r) = Inr (replicate 10000 0x78)) \<and>
     isWellFormed [0xD83C, 0xDF89] \<and>
     (\<exists>r. fst (encrypt lib [0xD83C, 0xDF89] rng) = Inr r \<and>
          decrypt lib (encrypted r) (key r) = Inr [0xD83C, 0xDF89])"
    using w1 w2 w3 w4
      C1_decrypt_encrypt [OF w1, of lib rng] C1_decrypt_encrypt [OF w2, of lib rng]
      C1_decrypt_encrypt [OF w3, of lib rng] C1_decrypt_encrypt [OF w4, of lib rng]
    by blast
qed

text \<open>
  Claim C8. For every plaintext string \<open>p\<close>, the ciphertext of \<open>encrypt p\<close> and of
  \<open>encryptWithPassword p pw\<close>, once base64-decoded, has exactly the length of the UTF-8
  encoding of \<open>p\<close>: nothing is padded, for the empty plaintext as for any other.
\<close>

theorem C8_ciphertext_length:
  "(\<exists>r. fst (encrypt lib p rng) = Inr r \<and>
        length (base64_decode (ciphertext (encrypted r))) = length (utf8_encode p)) \<and>
   (\<exists>r. fst (encryptWithPassword lib p pw rng) = Inr r \<and>
        length (base64_decode (ciphertext (pw_encrypted r))) = length (utf8_encode p))"
  by (simp add: encrypt_result encryptWithPassword_result base64_decode_encode length_gcm_seal)

subsection \<open>Lengths of key, nonce and tag\<close>

text \<open>
  Claim C3 says that a nonce that is not 12 bytes long fails with \<open>MalformedInput\<close>.
  Neither \<open>decrypt\<close> nor \<open>createDecipheriv\<close> asks for 12 bytes: an envelope with a
  16-byte nonce and the tag the cipher computes for it decrypts, here to the empty
  plaintext, with every cipher library.
\<close>

theorem C3_counterexample:
  "\<forall>lib.
     length (base64_decode (base64_encode (replicate 16 0))) = 16 \<and>
     decrypt lib
       \<lparr>ciphertext = [],
        iv = base64_encode (replicate 16 0),
        tag = base64_encode (be_bytes 16 (gcm_tag lib (replicate 32 0) (replicate 16 0) []))\<rparr>
       (toBase64Url (replicate 32 0)) = Inr []"
  by (simp add: decrypt_result base64_decode_encode fromBase64Url_toBase64Url gcm_open_def
      length_be_bytes base64_decode_Nil utf8_decode_def utf8_end_def utf8_initial_def)

text \<open>
  Claim C3, amended. \<open>decrypt\<close> fails with a \<open>MalformedInput\<close> error (Node's invalid key
  length, invalid initialization vector or invalid authentication tag length), raised by
  \<open>createDecipheriv\<close> or \<open>setAuthTag\<close> before any data reaches the cipher, whenever the key
  does not decode to 32 bytes, the nonce decodes to no byte or to more than 128 bytes, or
  the tag does not decode to 16 bytes. \<open>decryptWithPassword\<close> does the same for the nonce
  and the tag; its key is derived and always has 32 bytes. A nonce of 1 to 128 bytes is
  not refused, whatever its length: with a key of 32 and a tag of 16 bytes the call then
  returns the plaintext or fails with \<open>AuthenticationFailure\<close>, as the tag decides, and
  with no other error.
\<close>

theorem C3_malformed_lengths:
  "(base64_decode (iv enc) = [] \<or> 128 < length (base64_decode (iv enc)) \<or>
      length (fromBase64Url ks) \<noteq> 32 \<or> length (base64_decode (tag enc)) \<noteq> 16 \<longrightarrow>
      (\<exists>e. decrypt lib enc ks = Inl e \<and> kind_of e = MalformedInput \<and>
         (createDecipheriv (fromBase64Url ks) (base64_decode (iv enc)) TAG_LENGTH = Inl e \<or>
          (\<exists>d. createDecipheriv (fromBase64Url ks) (base64_decode (iv enc)) TAG_LENGTH = Inr d \<and>
               setAuthTag d (base64_decode (tag enc)) = Inl e)))) \<and>
   (base64_decode (iv enc) \<noteq> [] \<and> length (base64_decode (iv enc)) \<le> 128 \<and>
      length (fromBase64Url ks) = 32 \<and> length (base64_decode (tag enc)) = 16 \<longrightarrow>
      decrypt lib enc ks =
        (case gcm_open lib (fromBase64Url ks) (base64_decode (iv enc))
                (base64_decode (ciphertext enc)) (base64_decode (tag enc)) of
           None \<Rightarrow> Inl Unable_to_authenticate_data
         | Some pt \<Rightarrow> Inr (utf8_decode pt))) \<and>
   (base64_decode (iv enc) = [] \<or> 128 < length (base64_decode (iv enc)) \<or>
      length (base64_decode (tag enc)) \<noteq> 16 \<longrightarrow>
      (\<exists>e. decryptWithPassword lib enc pw s = Inl e \<and> kind_of e = MalformedInput)) \<and>
   (base64_decode (iv enc) \<noteq> [] \<and> length (base64_decode (iv enc)) \<le> 128 \<and>
      length (base64_decode (tag enc)) = 16 \<longrightarrow>
      (\<exists>k. deriveKeyFromPassword lib pw (base64_decode s) = Inr k \<and> length k = 32 \<and>
         decryptWithPassword lib enc pw s =
           (case gcm_open lib k (base64_decode (iv enc))
                   (base64_decode (ciphertext enc)) (base64_decode (tag enc)) of
              None \<Rightarrow> Inl Unable_to_authenticate_data
            | Some pt \<Rightarrow> Inr (utf8_decode pt)))) \<and>
   (\<exists>k. deriveKeyFromPassword lib pw (base64_decode s) = Inr k \<and> length k = 32) \<and>
   kind_of Unable_to_authenticate_data \<noteq> MalformedInput"
proof (intro conjI impI)
  assume bad: "base64_decode (iv enc) = [] \<or> 128 < length (base64_decode (iv enc)) \<or>
      length (fromBase64Url ks) \<noteq> 32 \<or> length (base64_decode (tag enc)) \<noteq> 16"
  show "\<exists>e. decrypt lib enc ks = Inl e \<and> kind_of e = MalformedInput \<and>
         (createDecipheriv (fromBase64Url ks) (base64_decode (iv enc)) TAG_LENGTH = Inl e \<or>
          (\<exists>d. createDecipheriv (fromBase64Url ks) (base64_decode (iv enc)) TAG_LENGTH = Inr d \<and>
               setAuthTag d (base64_decode (tag enc)) = Inl e))"
  proof (cases "base64_decode (iv enc) = [] \<or> 128 < length (base64_decode (iv enc))")
    case True
    then show ?thesis
      by (auto simp add: decrypt_result createDecipheriv_def GCM_IV_MAX_SIZE_def)
  next
    case False
    note iv_ok = this
    show ?thesis
    proof (cases "length (fromBase64Url ks) \<noteq> 32")
      case True
      with iv_ok show ?thesis
        by (simp add: decrypt_result createDecipheriv_def GCM_IV_MAX_SIZE_def TAG_LENGTH_def
            IsValidGCMTagLength_16)
    next
      case False
      with iv_ok bad have "length (base64_decode (tag enc)) \<noteq> 16"
        by blast
      with iv_ok False show ?thesis
        by (simp add: decrypt_result createDecipheriv_def GCM_IV_MAX_SIZE_def setAuthTag_def
            TAG_LENGTH_def IsValidGCMTagLength_16)
    qed
  qed
next
  assume "base64_decode (iv enc) \<noteq> [] \<and> length (base64_decode (iv enc)) \<le> 128 \<and>
      length (fromBase64Url ks) = 32 \<and> length (base64_decode (tag enc)) = 16"
  then show "decrypt lib enc ks =
        (case gcm_open lib (fromBase64Url ks) (base64_decode (iv enc))
                (base64_decode (ciphertext enc)) (base64_decode (tag enc)) of
           None \<Rightarrow> Inl Unable_to_authenticate_data
         | Some pt \<Rightarrow> Inr (utf8_decode pt))"
    by (simp add: decrypt_result)
next
  assume "base64_decode (iv enc) = [] \<or> 128 < length (base64_decode (iv enc)) \<or>
      length (base64_decode (tag enc)) \<noteq> 16"
  then show "\<exists>e. decryptWithPassword lib enc pw s = Inl e \<and> kind_of e = MalformedInput"
    by (auto simp add: decryptWithPassword_result)
next
  assume "base64_decode (iv enc) \<noteq> [] \<and> length (base64_decode (iv enc)) \<le> 128 \<and>
      length (base64_decode (tag enc)) = 16"
  then show "\<exists>k. deriveKeyFromPassword lib pw (base64_decode s) = Inr k \<and> length k = 32 \<and>
         decryptWithPassword lib enc pw s =
           (case gcm_open lib k (base64_decode (iv enc))
                   (base64_decode (ciphertext enc)) (base64_decode (tag enc)) of
              None \<Rightarrow> Inl Unable_to_authenticate_data
            | Some pt \<Rightarrow> Inr (utf8_decode pt))"
    by (simp add: deriveKeyFromPassword_result length_pbkdf2 decryptWithPassword_result)
next
  show "\<exists>k. deriveKeyFromPassword lib pw (base64_decode s) = Inr k \<and> length k = 32"
    by (simp add: deriveKeyFromPassword_result length_pbkdf2)
next
  show "kind_of Unable_to_authenticate_data \<noteq> MalformedInput"
    by simp
qed

text \<open>
  The amended claim C3 at five envelopes: an empty nonce and a nonce of 129 bytes are
  refused as an invalid initialization vector, the three-byte key \<open>AAAA\<close> as an invalid
  key length and, in \<open>decryptWithPassword\<close>, a three-byte tag as an invalid tag length;
  a nonce of 128 bytes is taken, and the envelope sealed with it decrypts.
\<close>

theorem C3_malformed_lengths_witness:
  "\<forall>lib.
     decrypt lib
       \<lparr>ciphertext = js ''AAAA'', iv = [], tag = js ''AAAAAAAAAAAAAAAAAAAAAA==''\<rparr>
       (toBase64Url (replicate 32 0)) = Inl ERR_CRYPTO_INVALID_IV \<and>
     decrypt lib
       \<lparr>ciphertext = js ''AAAA'', iv = base64_encode (replicate 129 0),
        tag = js ''AAAAAAAAAAAAAAAAAAAAAA==''\<rparr>
       (toBase64Url (replicate 32 0)) = Inl ERR_CRYPTO_INVALID_IV \<and>
     decrypt lib
       \<lparr>ciphertext = js ''AAAA'', iv = js ''AAAAAAAAAAAAAAAA'',
        tag = js ''AAAAAAAAAAAAAAAAAAAAAA==''\<rparr>
       (js ''AAAA'') = Inl ERR_CRYPTO_INVALID_KEYLEN \<and>
     decryptWithPassword lib
       \<lparr>ciphertext = js ''AAAA'', iv = js ''AAAAAAAAAAAAAAAA'', tag = js ''AAAA''\<rparr>
       (js ''pw'') (js ''AAAA'') = Inl ERR_CRYPTO_INVALID_AUTH_TAG \<and>
     decrypt lib
       \<lparr>ciphertext = [],
        iv = base64_encode (replicate 128 0),
        tag = base64_encode (be_bytes 16 (gcm_tag lib (replicate 32 0) (replicate 128 0) []))\<rparr>
       (toBase64Url (replicate 32 0)) = Inr []"
proof (intro allI)
  fix lib :: crypto
  have iv0: "base64_decode [] = []"
    by (rule base64_decode_Nil)
  have iv12: "base64_decode (js ''AAAAAAAAAAAAAAAA'') = [0, 0, 0, 0, 0, 0, 0, 0, 0, 0, 0, 0]"
    by (simp add: base64_decode_def unbase64_def low_byte_def js_def)
  have k3: "fromBase64Url (js ''AAAA'') = [0, 0, 0]"
    and t3: "base64_decode (js ''AAAA'') = [0, 0, 0]"
    by (simp_all add: fromBase64Url_base64_decode base64_decode_def unbase64_def low_byte_def
        js_def)
  let ?t = "js ''AAAAAAAAAAAAAAAAAAAAAA==''"
  let ?k = "toBase64Url (replicate 32 0)"
  let ?e1 = "\<lparr>ciphertext = js ''AAAA'', iv = [], tag = ?t\<rparr>"
  let ?e2 = "\<lparr>ciphertext = js ''AAAA'', iv = base64_encode (replicate 129 0), tag = ?t\<rparr>"
  let ?e3 = "\<lparr>ciphertext = js ''AAAA'', iv = js ''AAAAAAAAAAAAAAAA'', tag = ?t\<rparr>"
  let ?e4 = "\<lparr>ciphertext = js ''AAAA'', iv = js ''AAAAAAAAAAAAAAAA'', tag = js ''AAAA''\<rparr>"
  let ?e5 = "\<lparr>ciphertext = [], iv = base64_encode (replicate 128 0),
      tag = base64_encode (be_bytes 16 (gcm_tag lib (replicate 32 0) (replicate 128 0) []))\<rparr>"
  have "decrypt lib ?e1 ?k = Inl ERR_CRYPTO_INVALID_IV"
    using C3_malformed_lengths [of ?e1 ?k lib "js ''pw''" "js ''AAAA''"] iv0
    by (auto simp add: createDecipheriv_def)
  moreover have "decrypt lib ?e2 ?k = Inl ERR_CRYPTO_INVALID_IV"
    using C3_malformed_lengths [of ?e2 ?k lib "js ''pw''" "js ''AAAA''"]
    by (auto simp add: createDecipheriv_def GCM_IV_MAX_SIZE_def base64_decode_encode)
  moreover have "decrypt lib ?e3 (js ''AAAA'') = Inl ERR_CRYPTO_INVALID_KEYLEN"
    using C3_malformed_lengths [of ?e3 "js ''AAAA''" lib "js ''pw''" "js ''AAAA''"] iv12 k3
    by (auto simp add: createDecipheriv_def GCM_IV_MAX_SIZE_def TAG_LENGTH_def
        IsValidGCMTagLength_16)
  moreover have "decryptWithPassword lib ?e4 (js ''pw'') (js ''AAAA'')
      = Inl ERR_CRYPTO_INVALID_AUTH_TAG"
    using C3_malformed_lengths [of ?e4 "js ''AAAA''" lib "js ''pw''" "js ''AAAA''"] iv12 t3
    by (auto simp add: decryptWithPassword_result)
  moreover have "decrypt lib ?e5 ?k = Inr []"
    using C3_malformed_lengths [of ?e5 ?k lib "js ''pw''" "js ''AAAA''"]
    by (simp add: base64_decode_encode fromBase64Url_toBase64Url gcm_open_def length_be_bytes
        base64_decode_Nil utf8_decode_def utf8_end_def utf8_initial_def)
  ultimately show "decrypt lib ?e1 ?k = Inl ERR_CRYPTO_INVALID_IV \<and>
     decrypt lib ?e2 ?k = Inl ERR_CRYPTO_INVALID_IV \<and>
     decrypt lib ?e3 (js ''AAAA'') = Inl ERR_CRYPTO_INVALID_KEYLEN \<and>
     decryptWithPassword lib ?e4 (js ''pw'') (js ''AAAA'') = Inl ERR_CRYPTO_INVALID_AUTH_TAG \<and>
     decrypt lib ?e5 ?k = Inr []"
    by blast
qed

subsection \<open>Password mode\<close>

text \<open>
  Claim C6. \<open>deriveKeyFromPassword password salt\<close> is PBKDF2 with HMAC-SHA-256 over the
  UTF-8 bytes of the password, with exactly 100,000 iterations (the first HMAC and
  99,999 more, all XORed) and an output of exactly 32 bytes, that is one block; it takes
  nothing but the password and the salt, so equal pairs give equal keys; and it succeeds
  for the empty password.
\<close>

theorem C6_deriveKeyFromPassword:
  "deriveKeyFromPassword lib pw s = pbkdf2Sync (hmac_sha256 lib) pw s 100000 32 \<and>
   deriveKeyFromPassword lib pw s
     = Inr (pbkdf2 (hmac_sha256 lib) (utf8_encode pw) s 100000 32) \<and>
   pbkdf2 (hmac_sha256 lib) (utf8_encode pw) s 100000 32
     = be_bytes 32 (pbkdf2_rounds (hmac_sha256 lib) (utf8_encode pw) 99999
         (hmac_sha256 lib (utf8_encode pw) (s @ [0, 0, 0, 1]))
         (hmac_sha256 lib (utf8_encode pw) (s @ [0, 0, 0, 1]))) \<and>
   length (pbkdf2 (hmac_sha256 lib) (utf8_encode pw) s 100000 32) = 32 \<and>
   (\<forall>pw' s'. pw' = pw \<and> s' = s \<longrightarrow>
      deriveKeyFromPassword lib pw' s' = deriveKeyFromPassword lib pw s) \<and>
   (\<exists>k. deriveKeyFromPassword lib [] s = Inr k \<and> length k = 32)"
proof (intro conjI)
  show "deriveKeyFromPassword lib pw s = pbkdf2Sync (hmac_sha256 lib) pw s 100000 32"
    by (simp add: deriveKeyFromPassword_def KEY_LENGTH_def)
  show "deriveKeyFromPassword lib pw s
     = Inr (pbkdf2 (hmac_sha256 lib) (utf8_encode pw) s 100000 32)"
    by (rule deriveKeyFromPassword_result)
  show "pbkdf2 (hmac_sha256 lib) (utf8_encode pw) s 100000 32
     = be_bytes 32 (pbkdf2_rounds (hmac_sha256 lib) (utf8_encode pw) 99999
         (hmac_sha256 lib (utf8_encode pw) (s @ [0, 0, 0, 1]))
         (hmac_sha256 lib (utf8_encode pw) (s @ [0, 0, 0, 1])))"
    by (simp add: pbkdf2_one_block pbkdf2_block_def be_bytes_block_index Let_def)
  show "length (pbkdf2 (hmac_sha256 lib) (utf8_encode pw) s 100000 32) = 32"
    by (rule length_pbkdf2)
  show "\<forall>pw' s'. pw' = pw \<and> s' = s \<longrightarrow>
      deriveKeyFromPassword lib pw' s' = deriveKeyFromPassword lib pw s"
    by simp
  show "\<exists>k. deriveKeyFromPassword lib [] s = Inr k \<and> length k = 32"
    by (simp add: deriveKeyFromPassword_result length_pbkdf2)
qed

theorem C6_deriveKeyFromPassword_witness:
  "\<forall>lib.
     deriveKeyFromPassword lib (js ''MyPassword'') (replicate 16 7)
       = Inr (pbkdf2 (hmac_sha256 lib) (utf8_encode (js ''MyPassword'')) (replicate 16 7)
                100000 32) \<and>
     length (pbkdf2 (hmac_sha256 lib) (utf8_encode (js ''MyPassword'')) (replicate 16 7)
                100000 32) = 32 \<and>
     (\<exists>k. deriveKeyFromPassword lib [] (replicate 16 7) = Inr k \<and> length k = 32)"
  using C6_deriveKeyFromPassword [of _ "js ''MyPassword''" "replicate 16 7"] by blast

subsection \<open>api/snipit.ts\<close>

text \<open>
  Claim C9 says that no request of \<open>createSnippet\<close> carries the password, and that only
  salt and ciphertext travel to the server. The request body of the code holds the
  content as it was given and the password itself; \<open>encrypt\<close> and \<open>encryptWithPassword\<close>
  are never called. Here is the body for a password-protected snippet.
\<close>

theorem C9_createSnippet_request:
  "req_body (createSnippet_sends ''https://snipit.sh'' 0
      \<lparr>content = js ''secret code'', language = None, fileName = None,
       visibility = Password, expiry = Expiry_1h, password = Some (js ''hunter2'')\<rparr>) =
   Some [(''content'', JString (js ''secret code'')),
         (''visibility'', JString (js ''password'')),
         (''expiresAt'', JDate 3600000),
         (''password'', JString (js ''hunter2''))]"
  by (simp add: createSnippet_sends_def makeRequest_sends_def JSON_stringify_def json_field_def)

text \<open>
  Claim C10. \<open>parseSnipitUrl\<close> is total. It returns null when the string is not a
  parseable URL or the host name of the URL does not contain \<open>snipit\<close>; otherwise it
  returns the first path segment, without the leading slash, as the id, and the fragment
  without its leading \<open>#\<close> as the key, the key being left out when that is empty. The
  URL parser of the platform is a parameter: the statement holds for every parser.
\<close>

theorem C10_parseSnipitUrl:
  "parseSnipitUrl new_URL url =
     (case new_URL url of
        None \<Rightarrow> None
      | Some parsed \<Rightarrow>
          if (\<exists>pre post. hostname parsed = pre @ ''snipit'' @ post)
          then Some \<lparr>id' = Some (first_path_segment (pathname parsed)),
                     key' = fragment_key (hash parsed)\<rparr>
          else None)"
  by (simp add: parseSnipitUrl_def js_includes_iff index0_js_split replace_leading_alt
      first_path_segment_def fragment_key_def or_undefined_def Let_def split: option.split)

theorem C10_parseSnipitUrl_witness:
  "parseSnipitUrl
     (\<lambda>s. if s = ''https://snipit.sh/abc123/raw#k3y''
          then Some \<lparr>hostname = ''snipit.sh'', pathname = ''/abc123/raw'', hash = ''#k3y''\<rparr>
          else None)
     ''https://snipit.sh/abc123/raw#k3y'' = Some \<lparr>id' = Some ''abc123'', key' = Some ''k3y''\<rparr> \<and>
   parseSnipitUrl
     (\<lambda>s. if s = ''https://snipit.sh/abc123/raw#k3y''
          then Some \<lparr>hostname = ''snipit.sh'', pathname = ''/abc123/raw'', hash = ''#k3y''\<rparr>
          else None)
     ''not a url'' = None \<and>
   parseSnipitUrl (\<lambda>s. Some \<lparr>hostname = ''example.com'', pathname = ''/abc123'', hash = ''''\<rparr>)
     ''https://example.com/abc123'' = None \<and>
   parseSnipitUrl (\<lambda>s. Some \<lparr>hostname = ''snipit.sh'', pathname = ''/abc123'', hash = ''''\<rparr>)
     ''https://snipit.sh/abc123'' = Some \<lparr>id' = Some ''abc123'', key' = None\<rparr>"
proof -
  have h1: "\<exists>pre post. ''snipit.sh'' = pre @ ''snipit'' @ post"
    by (intro exI [of _ "[]"] exI [of _ "''.sh''"]) simp
  have h2: "\<not> (\<exists>pre post. ''example.com'' = pre @ ''snipit'' @ post)"
    using js_includes_iff [of "''example.com''" "''snipit''"] by simp
  show ?thesis
    using h1 h2
    by (simp add: C10_parseSnipitUrl first_path_segment_def fragment_key_def)
qed

end
